theory Spec2Isabelle
  imports Complex_Main
begin

section \<open>Values and exceptions of the program\<close>

text \<open>
  The configured rating value is read from the environment, the settings file or the
  settings form, so at run time it is a number, \<open>None\<close> or something that is not a number.
  The finite Python floats are modelled as reals: rounding is not modelled. The floats
  \<open>nan\<close>, \<open>inf\<close> and \<open>-inf\<close>, which \<open>float()\<close> also returns, are values of their own.
\<close>

datatype pyval = PNone | PNum real | PNan | PInf | PNeg_inf | PStr string

text \<open>Exceptions are values; the string is what \<open>str(e)\<close> prints in a log line.\<close>

datatype exn = TypeError | ValueError string | AttributeError | JSONDecodeError | ClientError string

text \<open>
  A parsed JSON document, as \<open>json.loads\<close> returns it. An object is the list of its
  items; a key is looked up from the front.
\<close>

datatype json =
    JNull
  | JBool bool
  | JNum real
  | JStr string
  | JArr "json list"
  | JObj "(string \<times> json) list"

section \<open>RatingEngine: \<open>convert_to_plex_rating\<close>\<close>

text \<open>
  The body of the \<open>try\<close> block of \<open>convert_to_plex_rating\<close>: comparing or dividing a value
  that is not a number raises \<open>TypeError\<close>. Every style other than \<open>'1star'\<close> takes the
  second branch. No comparison with \<open>nan\<close> holds, so \<open>nan >= 1\<close> is false and
  \<open>min(10, nan)\<close> keeps its first argument; \<open>inf\<close> and \<open>-inf\<close> are clamped like numbers.
\<close>

fun plex_rating_try :: "string option \<Rightarrow> pyval \<Rightarrow> exn + real" where
  "plex_rating_try style (PNum v) =
     (if style = Some ''1star'' then Inr (if v \<ge> 1 then 10 else 0)
      else Inr (max 2 (min 10 ((v / 5) * 10))))"
| "plex_rating_try style PNan = (if style = Some ''1star'' then Inr 0 else Inr 10)"
| "plex_rating_try style PInf = Inr 10"
| "plex_rating_try style PNeg_inf = (if style = Some ''1star'' then Inr 0 else Inr 2)"
| "plex_rating_try style PNone = Inl TypeError"
| "plex_rating_try style (PStr s) = Inl TypeError"

definition convert_to_plex_rating :: "string option \<Rightarrow> pyval \<Rightarrow> real" where
  "convert_to_plex_rating style value =
     (case plex_rating_try style value of Inr r \<Rightarrow> r | Inl e \<Rightarrow> 6)"

section \<open>The log texts\<close>

text \<open>
  Every call of \<open>add_log_entry\<close> passes a text: a literal, or an f-string. A literal is kept
  as its string; an f-string is a constructor that carries the formatted arguments:
  \<^item> \<open>Rated idx title\<close>: \<^verbatim>\<open>[{idx}] Rated: {track.title}\<close>
  \<^item> \<open>Updated idx title\<close>: \<^verbatim>\<open>[{idx}] Updated: {track.title}\<close>
  \<^item> \<open>Error_rating title e\<close>: \<^verbatim>\<open>Error rating track {track.title}: {e}\<close>
  \<^item> \<open>Processing lib\<close>: \<^verbatim>\<open>Processing library: {lib.title}\<close>
  \<^item> \<open>No_tracks lib\<close>: \<^verbatim>\<open>No tracks in {lib.title}\<close>
  \<^item> \<open>Summary lib r u s\<close>: \<^verbatim>\<open>{lib.title}: Rated {rated}, Updated {updated}, Skipped {skipped}\<close>
  \<^item> \<open>Fetch_error lib e\<close>: \<^verbatim>\<open>Fetch error in {lib.title}: {e}\<close>
  \<^item> \<open>Cleared title\<close>: \<^verbatim>\<open>Cleared: {track.title}\<close>
  \<^item> \<open>Error_in lib e\<close>: \<^verbatim>\<open>Error in {lib.title}: {e}\<close>
  \<^item> \<open>Library_fetch_error name e\<close>: \<^verbatim>\<open>Library fetch error for {name}: {e}\<close>
  \<^item> \<open>Library_unavailable name\<close>: \<^verbatim>\<open>Warning: Library '{name}' not found or unavailable\<close>
  \<^item> \<open>Webhook event section\<close>: \<^verbatim>\<open>Webhook: {event} in {section}\<close>
  \<^item> \<open>Webhook_error e\<close>: \<^verbatim>\<open>Webhook error: {e}\<close>
  \<^item> \<open>Libraries_changed names\<close>: \<^verbatim>\<open>Libraries changed to: {', '.join(SELECTED_LIBRARIES)}\<close>
  \<^item> \<open>Invalid_style style\<close>: \<^verbatim>\<open>Invalid rating style: {style}\<close>
  \<^item> \<open>Invalid_value val e\<close>: \<^verbatim>\<open>Invalid rating value submitted: {val} ({e})\<close>
  \<^item> \<open>Interval_set n\<close>: \<^verbatim>\<open>Batch interval set to {BATCH_INTERVAL_MINUTES} minutes\<close>
  \<^item> \<open>Invalid_interval val e\<close>: \<^verbatim>\<open>Invalid batch interval submitted: {batch_interval} ({e})\<close>
  \<^item> \<open>Style_value_set style value\<close>:
    \<^verbatim>\<open>Rating style set to: {TARGET_RATING_STYLE}, Rating value set to: {TARGET_RATING_VALUE}\<close>
  \<^item> \<open>Override_set b\<close>: \<^verbatim>\<open>Override rating set to: {OVERRIDE_RATING}\<close>
  \<^item> \<open>Trigger_thread_started n\<close>:
    \<^verbatim>\<open>Periodic batch trigger thread started, interval: {BATCH_INTERVAL_MINUTES} minutes\<close>
  \<^item> \<open>Batch_thread_started n\<close>: \<^verbatim>\<open>Batch thread started with interval {BATCH_INTERVAL_MINUTES} minutes\<close>
\<close>

datatype log_msg =
    Msg string
  | Rated nat string
  | Updated nat string
  | Error_rating string exn
  | Processing string
  | No_tracks string
  | Summary string nat nat nat
  | Fetch_error string exn
  | Cleared string
  | Error_in string exn
  | Library_fetch_error string exn
  | Library_unavailable string
  | Webhook json json
  | Webhook_error exn
  | Libraries_changed "string list"
  | Invalid_style "string option"
  | Invalid_value "string option" exn
  | Interval_set int
  | Invalid_interval "string option" exn
  | Style_value_set "string option" pyval
  | Override_set bool
  | Trigger_thread_started int
  | Batch_thread_started int

section \<open>The collaborator: libraries and tracks\<close>

record track =
  title :: string
  userRating :: "real option"

record library =
  lib_title :: string

text \<open>
  The media-server client is not part of the program. It is a parameter: what
  \<open>plex.library.section(name)\<close> and \<open>lib.searchTracks(sort, maxresults)\<close> return or raise,
  and whether \<open>track.rate(r)\<close> raises (\<open>None\<close>: it returns).
\<close>

record client =
  library_section :: "string \<Rightarrow> exn + library"
  searchTracks :: "library \<Rightarrow> nat option \<Rightarrow> exn + track list"
  rate :: "track \<Rightarrow> real option \<Rightarrow> exn option"

text \<open>
  The effects of a sweep: the texts passed to \<open>add_log_entry\<close>, in order, and the
  \<open>track.rate\<close> calls issued, in order (a call that raises is issued all the same).
\<close>

record world =
  logged :: "log_msg list"
  calls :: "(track \<times> real option) list"

definition add_log :: "log_msg \<Rightarrow> world \<Rightarrow> world" where
  "add_log m w = w\<lparr>logged := logged w @ [m]\<rparr>"

definition call_rate :: "client \<Rightarrow> track \<Rightarrow> real option \<Rightarrow> world \<Rightarrow> exn option \<times> world" where
  "call_rate cl t r w = (rate cl t r, w\<lparr>calls := calls w @ [(t, r)]\<rparr>)"

section \<open>Resolving the selected libraries\<close>

definition get_music_lib :: "client \<Rightarrow> string \<Rightarrow> world \<Rightarrow> library option \<times> world" where
  "get_music_lib cl name w =
     (case library_section cl name of
        Inr lib \<Rightarrow> (Some lib, w)
      | Inl e \<Rightarrow> (None, add_log (Library_fetch_error name e) w))"

text \<open>The loop of \<open>load_music_libs\<close>, with the list \<open>libs\<close> built so far.\<close>

fun load_music_libs_loop ::
  "client \<Rightarrow> string list \<Rightarrow> library list \<Rightarrow> world \<Rightarrow> library list \<times> world" where
  "load_music_libs_loop cl [] libs w = (libs, w)"
| "load_music_libs_loop cl (name # names) libs w =
     (case get_music_lib cl name w of
        (Some lib, w') \<Rightarrow> load_music_libs_loop cl names (libs @ [lib]) w'
      | (None, w') \<Rightarrow> load_music_libs_loop cl names libs (add_log (Library_unavailable name) w'))"

definition load_music_libs :: "client \<Rightarrow> string list \<Rightarrow> world \<Rightarrow> library list \<times> world" where
  "load_music_libs cl lib_names w = load_music_libs_loop cl lib_names [] w"

section \<open>SweepRunner: \<open>rate_tracks\<close>\<close>

record counts =
  rated :: nat
  updated :: nat
  skipped :: nat

text \<open>
  The \<open>try\<close> block of one iteration of the loop of \<open>rate_tracks\<close>. The result says whether the
  block raised; the counters and the effects are those at that point.
\<close>

definition rate_track_try ::
  "client \<Rightarrow> real \<Rightarrow> bool \<Rightarrow> nat \<Rightarrow> track \<Rightarrow> counts \<Rightarrow> world \<Rightarrow> exn option \<times> counts \<times> world" where
  "rate_track_try cl plex_rating override idx t c w =
     (case userRating t of
        None \<Rightarrow>
          (case call_rate cl t (Some plex_rating) w of
             (Some e, w') \<Rightarrow> (Some e, c, w')
           | (None, w') \<Rightarrow> (None, c\<lparr>rated := rated c + 1\<rparr>, add_log (Rated idx (title t)) w'))
      | Some current \<Rightarrow>
          if override \<and> \<bar>current - plex_rating\<bar> > 0.01 then
            (case call_rate cl t (Some plex_rating) w of
               (Some e, w') \<Rightarrow> (Some e, c, w')
             | (None, w') \<Rightarrow> (None, c\<lparr>updated := updated c + 1\<rparr>, add_log (Updated idx (title t)) w'))
          else (None, c\<lparr>skipped := skipped c + 1\<rparr>, w))"

text \<open>One iteration: the \<open>try\<close> block, and the \<open>except Exception\<close> handler when it raised.\<close>

definition rate_track ::
  "client \<Rightarrow> real \<Rightarrow> bool \<Rightarrow> nat \<Rightarrow> track \<Rightarrow> counts \<Rightarrow> world \<Rightarrow> counts \<times> world" where
  "rate_track cl plex_rating override idx t c w =
     (case rate_track_try cl plex_rating override idx t c w of
        (None, c', w') \<Rightarrow> (c', w')
      | (Some e, c', w') \<Rightarrow> (c', add_log (Error_rating (title t) e) w'))"

text \<open>The loop \<open>for idx, track in enumerate(tracks, 1)\<close>.\<close>

fun rate_tracks_loop ::
  "client \<Rightarrow> real \<Rightarrow> bool \<Rightarrow> nat \<Rightarrow> track list \<Rightarrow> counts \<Rightarrow> world \<Rightarrow> counts \<times> world" where
  "rate_tracks_loop cl plex_rating override idx [] c w = (c, w)"
| "rate_tracks_loop cl plex_rating override idx (t # ts) c w =
     (case rate_track cl plex_rating override idx t c w of
        (c', w') \<Rightarrow> rate_tracks_loop cl plex_rating override (idx + 1) ts c' w')"

text \<open>The globals \<open>TARGET_RATING_STYLE\<close>, \<open>TARGET_RATING_VALUE\<close> and \<open>OVERRIDE_RATING\<close>.\<close>

record rating_config =
  rating_style :: "string option"
  rating_value :: pyval
  override_rating :: bool

definition rate_tracks :: "client \<Rightarrow> rating_config \<Rightarrow> track list \<Rightarrow> world \<Rightarrow> counts \<times> world" where
  "rate_tracks cl cfg tracks w =
     rate_tracks_loop cl (convert_to_plex_rating (rating_style cfg) (rating_value cfg))
       (override_rating cfg) 1 tracks \<lparr>rated = 0, updated = 0, skipped = 0\<rparr> w"

section \<open>SingleFlightGate and \<open>rate_new_tracks\<close>\<close>

record gate =
  batch_lock :: bool
  batch_running :: bool

datatype gate_error = RuntimeError

text \<open>\<open>batch_lock.acquire(blocking=False)\<close>: never waits; tells whether the lock was taken.\<close>

definition acquire_nonblocking :: "gate \<Rightarrow> bool \<times> gate" where
  "acquire_nonblocking g =
     (if batch_lock g then (False, g) else (True, g\<lparr>batch_lock := True\<rparr>))"

text \<open>\<open>batch_lock.release()\<close>: releasing a lock that is not held raises \<open>RuntimeError\<close>.\<close>

definition release :: "gate \<Rightarrow> gate_error + gate" where
  "release g = (if batch_lock g then Inr (g\<lparr>batch_lock := False\<rparr>) else Inl RuntimeError)"

text \<open>
  The inner \<open>try\<close> block of the loop over the libraries: the fetch, the test for an empty
  result, the rating of the tracks and the summary line.
\<close>

definition sweep_library_try ::
  "client \<Rightarrow> rating_config \<Rightarrow> nat option \<Rightarrow> library \<Rightarrow> world \<Rightarrow> exn option \<times> world" where
  "sweep_library_try cl cfg limit lib w =
     (case searchTracks cl lib limit of
        Inl e \<Rightarrow> (Some e, w)
      | Inr tracks \<Rightarrow>
          if tracks = [] then (None, add_log (No_tracks (lib_title lib)) w)
          else (case rate_tracks cl cfg tracks w of
                  (c, w') \<Rightarrow>
                    (None, add_log (Summary (lib_title lib) (rated c) (updated c) (skipped c)) w')))"

text \<open>One iteration of \<open>for lib in music_libs\<close>, with the handler of the inner \<open>try\<close>.\<close>

definition sweep_library ::
  "client \<Rightarrow> rating_config \<Rightarrow> nat option \<Rightarrow> library \<Rightarrow> world \<Rightarrow> world" where
  "sweep_library cl cfg limit lib w =
     (case sweep_library_try cl cfg limit lib (add_log (Processing (lib_title lib)) w) of
        (None, w') \<Rightarrow> w'
      | (Some e, w') \<Rightarrow> add_log (Fetch_error (lib_title lib) e) w')"

fun sweep_libraries ::
  "client \<Rightarrow> rating_config \<Rightarrow> nat option \<Rightarrow> library list \<Rightarrow> world \<Rightarrow> world" where
  "sweep_libraries cl cfg limit [] w = w"
| "sweep_libraries cl cfg limit (lib # libs) w =
     sweep_libraries cl cfg limit libs (sweep_library cl cfg limit lib w)"

text \<open>
  The frame of \<open>rate_new_tracks\<close> around a guarded body: the non-blocking acquire, the
  early return, and the \<open>finally\<close> clause. The body is any computation on the effects
  that returns (\<open>None\<close>) or raises (\<open>Some e\<close>); the result of the frame says which exception
  leaves \<open>rate_new_tracks\<close>, if any.
\<close>

datatype outcome = Returned | Raised exn | Raised_release gate_error

definition rate_new_tracks_frame ::
  "(world \<Rightarrow> exn option \<times> world) \<Rightarrow> gate \<times> world \<Rightarrow> outcome \<times> gate \<times> world" where
  "rate_new_tracks_frame body gw =
     (case gw of (g, w) \<Rightarrow>
        (case acquire_nonblocking g of
           (False, g') \<Rightarrow>
             (Returned, g', add_log (Msg ''Batch already running, skipping this trigger.'') w)
         | (True, g1) \<Rightarrow>
             (let g2 = g1\<lparr>batch_running := True\<rparr> in
              case body w of (r, w') \<Rightarrow>
                (let g3 = g2\<lparr>batch_running := False\<rparr> in
                 case release g3 of
                   Inl e \<Rightarrow> (Raised_release e, g3, w')
                 | Inr g4 \<Rightarrow> ((case r of None \<Rightarrow> Returned | Some e \<Rightarrow> Raised e), g4, w')))))"

definition rate_new_tracks ::
  "client \<Rightarrow> rating_config \<Rightarrow> library list \<Rightarrow> nat option \<Rightarrow> gate \<times> world \<Rightarrow> outcome \<times> gate \<times> world" where
  "rate_new_tracks cl cfg music_libs limit =
     rate_new_tracks_frame (\<lambda>w. (None, sweep_libraries cl cfg limit music_libs w))"

section \<open>The decision of the specification, and kinds of log line\<close>

text \<open>
  The specification's \<open>classify\<close>, written from its words, to be compared with what
  \<open>rate_tracks\<close> does.
\<close>

datatype decision = RATE | UPDATE | SKIP

definition classify :: "real option \<Rightarrow> real \<Rightarrow> bool \<Rightarrow> decision" where
  "classify currentRating target overrideExisting =
     (case currentRating of
        None \<Rightarrow> RATE
      | Some current \<Rightarrow>
          if overrideExisting \<and> \<bar>current - target\<bar> > 0.01 then UPDATE else SKIP)"

fun is_action :: "log_msg \<Rightarrow> bool" where
  "is_action (Rated i n) = True"
| "is_action (Updated i n) = True"
| "is_action m = False"

fun is_summary :: "log_msg \<Rightarrow> bool" where
  "is_summary (Summary l r u s) = True"
| "is_summary m = False"

text \<open>The effect of issuing \<open>track.rate(target)\<close>, whatever it answers.\<close>

definition issue :: "track \<Rightarrow> real \<Rightarrow> world \<Rightarrow> world" where
  "issue t tg w = w\<lparr>calls := calls w @ [(t, Some tg)]\<rparr>"

text \<open>
  The tracks of a list that have the decision \<open>d\<close> and, for \<open>RATE\<close> and \<open>UPDATE\<close>, whose
  \<open>rate\<close> call returns.
\<close>

definition counted :: "client \<Rightarrow> real \<Rightarrow> bool \<Rightarrow> decision \<Rightarrow> track list \<Rightarrow> nat" where
  "counted cl tg ov d ts =
     length (filter (\<lambda>t. classify (userRating t) tg ov = d
                          \<and> (d = SKIP \<or> rate cl t (Some tg) = None)) ts)"

section \<open>What a sweep owes every library\<close>

definition target :: "rating_config \<Rightarrow> real" where
  "target cfg = convert_to_plex_rating (rating_style cfg) (rating_value cfg)"

text \<open>What the sweep owes one library, stated on the effects after the sweep.\<close>

definition library_handled :: "client \<Rightarrow> rating_config \<Rightarrow> nat option \<Rightarrow> library \<Rightarrow> world \<Rightarrow> bool" where
  "library_handled cl cfg limit lib w' =
     (Processing (lib_title lib) \<in> set (logged w')
      \<and> (case searchTracks cl lib limit of
            Inl e \<Rightarrow> Fetch_error (lib_title lib) e \<in> set (logged w')
          | Inr tracks \<Rightarrow>
              (\<forall>t \<in> set tracks. classify (userRating t) (target cfg) (override_rating cfg) \<noteq> SKIP \<longrightarrow>
                 (t, Some (target cfg)) \<in> set (calls w')
                 \<and> (\<forall>e. rate cl t (Some (target cfg)) = Some e \<longrightarrow>
                        Error_rating (title t) e \<in> set (logged w')))))"

text \<open>The libraries that resolve, in the order of their names.\<close>

definition resolved :: "client \<Rightarrow> string list \<Rightarrow> library list" where
  "resolved cl names =
     concat (map (\<lambda>name. case library_section cl name of Inr lib \<Rightarrow> [lib] | Inl e \<Rightarrow> []) names)"

section \<open>Concurrent triggers\<close>

text \<open>
  Every trigger runs \<open>rate_new_tracks\<close> on a thread of its own. A thread is at the start of
  the function, inside the guarded sweep, or done. A step of the pool is a step of one
  thread: the acquire with what follows it up to the \<open>try\<close> (or the early return), or the
  guarded body with the \<open>finally\<close> clause. The lock is the only thing the threads share
  with each other besides the effects.
\<close>

datatype pc = Start | In_sweep | Done

record pool =
  gate_of :: gate
  effects :: world
  threads :: "pc list"

datatype action = Acquire nat | Finish nat

text \<open>A step is \<open>None\<close> when the thread is not at that point of the function.\<close>

definition rate_new_tracks_step ::
  "(world \<Rightarrow> exn option \<times> world) \<Rightarrow> action \<Rightarrow> pool \<Rightarrow> pool option" where
  "rate_new_tracks_step body a s =
     (case a of
        Acquire i \<Rightarrow>
          if i < length (threads s) \<and> threads s ! i = Start then
            (case acquire_nonblocking (gate_of s) of
               (False, g') \<Rightarrow>
                 Some (s\<lparr>gate_of := g',
                          effects := add_log (Msg ''Batch already running, skipping this trigger.'') (effects s),
                          threads := (threads s)[i := Done]\<rparr>)
             | (True, g1) \<Rightarrow>
                 Some (s\<lparr>gate_of := g1\<lparr>batch_running := True\<rparr>,
                          threads := (threads s)[i := In_sweep]\<rparr>))
          else None
      | Finish i \<Rightarrow>
          if i < length (threads s) \<and> threads s ! i = In_sweep then
            (case body (effects s) of
               (r, w') \<Rightarrow>
                 (let g3 = (gate_of s)\<lparr>batch_running := False\<rparr> in
                  case release g3 of
                    Inl e \<Rightarrow> Some (s\<lparr>gate_of := g3, effects := w', threads := (threads s)[i := Done]\<rparr>)
                  | Inr g4 \<Rightarrow> Some (s\<lparr>gate_of := g4, effects := w', threads := (threads s)[i := Done]\<rparr>)))
          else None)"

fun run :: "(world \<Rightarrow> exn option \<times> world) \<Rightarrow> action list \<Rightarrow> pool \<Rightarrow> pool option" where
  "run body [] s = Some s"
| "run body (a # as) s =
     (case rate_new_tracks_step body a s of None \<Rightarrow> None | Some s' \<Rightarrow> run body as s')"

text \<open>\<open>n\<close> triggers that have not started yet, with the lock free.\<close>

definition triggers :: "nat \<Rightarrow> world \<Rightarrow> pool" where
  "triggers n w =
     \<lparr>gate_of = \<lparr>batch_lock = False, batch_running = False\<rparr>, effects = w,
      threads = replicate n Start\<rparr>"

text \<open>The number of threads inside the guarded sweep.\<close>

definition holders :: "pool \<Rightarrow> nat" where
  "holders s = length (filter (\<lambda>p. p = In_sweep) (threads s))"

definition gate_inv :: "pool \<Rightarrow> bool" where
  "gate_inv s = (holders s = (if batch_lock (gate_of s) then 1 else 0))"

text \<open>A guarded body that logs a line and raises.\<close>

definition raising_body :: "world \<Rightarrow> exn option \<times> world" where
  "raising_body w = (Some (ClientError ''boom''), add_log (Processing ''Music'') w)"

section \<open>EventLog: \<open>add_log_entry\<close> and the live stream\<close>

text \<open>
  The globals \<open>rating_log\<close> (the ring) and \<open>listeners\<close> (one queue for each live stream),
  and the texts handed to \<open>logging.info\<close>. The clock is a parameter: \<open>add_log_entry\<close> gets
  the formatted time of the call.
\<close>

record event_log =
  rating_log :: "string list"
  listeners :: "string list list"
  logging_info :: "string list"

definition log_line :: "string \<Rightarrow> string \<Rightarrow> string" where
  "log_line timestamp text = timestamp @ '' - '' @ text"

definition add_log_entry :: "string \<Rightarrow> string \<Rightarrow> event_log \<Rightarrow> event_log" where
  "add_log_entry timestamp text el =
     (let line = log_line timestamp text;
          ring = rating_log el @ [line];
          ring' = (if length ring > 500 then tl ring else ring)
      in \<lparr>rating_log = ring',
          listeners = map (\<lambda>q. q @ [line]) (listeners el),
          logging_info = logging_info el @ [text]\<rparr>)"

text \<open>
  What happens to the log, in any order: a call of \<open>add_log_entry\<close>; a new stream, which
  registers an empty queue (\<open>stream\<close>); a turn of the loop of the stream \<open>i\<close>, which pops
  the head of its queue and sends it, and does nothing on an empty queue
  (\<open>event_stream\<close>). \<open>delivered\<close> keeps what each stream has sent.
\<close>

datatype log_op = Append string string | Subscribe | Pop nat

record log_system =
  event_log_of :: event_log
  delivered :: "string list list"

fun log_exec :: "log_op \<Rightarrow> log_system \<Rightarrow> log_system" where
  "log_exec (Append timestamp text) s = s\<lparr>event_log_of := add_log_entry timestamp text (event_log_of s)\<rparr>"
| "log_exec Subscribe s =
     s\<lparr>event_log_of := (event_log_of s)\<lparr>listeners := listeners (event_log_of s) @ [[]]\<rparr>,
       delivered := delivered s @ [[]]\<rparr>"
| "log_exec (Pop i) s =
     (if i < length (listeners (event_log_of s)) \<and> i < length (delivered s) then
        (case listeners (event_log_of s) ! i of
           [] \<Rightarrow> s
         | line # q \<Rightarrow>
             s\<lparr>event_log_of := (event_log_of s)\<lparr>listeners := (listeners (event_log_of s))[i := q]\<rparr>,
               delivered := (delivered s)[i := delivered s ! i @ [line]]\<rparr>)
      else s)"

fun log_run :: "log_op list \<Rightarrow> log_system \<Rightarrow> log_system" where
  "log_run [] s = s"
| "log_run (a # as) s = log_run as (log_exec a s)"

text \<open>The lines appended by a sequence, in order.\<close>

fun appended :: "log_op list \<Rightarrow> string list" where
  "appended [] = []"
| "appended (Append timestamp text # as) = log_line timestamp text # appended as"
| "appended (a # as) = appended as"

definition last_500 :: "string list \<Rightarrow> string list" where
  "last_500 ls = drop (length ls - 500) ls"

text \<open>What the stream \<open>i\<close> has sent followed by what waits in its queue.\<close>

definition seen :: "log_system \<Rightarrow> nat \<Rightarrow> string list" where
  "seen s i = delivered s ! i @ listeners (event_log_of s) ! i"

section \<open>Webhook ingress: \<open>plex_webhook\<close>\<close>

text \<open>\<open>d.get(key, default)\<close>: only a dict has \<open>get\<close>.\<close>

definition field :: "(string \<times> json) list \<Rightarrow> string \<Rightarrow> json \<Rightarrow> json" where
  "field items key dflt = (case map_of items key of Some v \<Rightarrow> v | None \<Rightarrow> dflt)"

definition py_get :: "json \<Rightarrow> string \<Rightarrow> json \<Rightarrow> exn + json" where
  "py_get d key dflt =
     (case d of
        JObj items \<Rightarrow> Inr (field items key dflt)
      | _ \<Rightarrow> Inl AttributeError)"

definition lower_char :: "char \<Rightarrow> char" where
  "lower_char c =
     (case map_of (zip ''ABCDEFGHIJKLMNOPQRSTUVWXYZ'' ''abcdefghijklmnopqrstuvwxyz'') c of
        Some l \<Rightarrow> l
      | None \<Rightarrow> c)"

text \<open>\<open>s.lower()\<close>: only a string has \<open>lower\<close>.\<close>

definition py_lower :: "json \<Rightarrow> exn + string" where
  "py_lower v = (case v of JStr s \<Rightarrow> Inr (map lower_char s) | _ \<Rightarrow> Inl AttributeError)"

text \<open>\<open>sub in s\<close> on strings.\<close>

fun contains :: "string \<Rightarrow> string \<Rightarrow> bool" where
  "contains sub [] = (sub = [])"
| "contains sub (c # s) = (take (length sub) (c # s) = sub \<or> contains sub s)"

text \<open>\<open>section in SELECTED_LIBRARIES\<close>: the selected libraries are strings.\<close>

definition in_selected :: "json \<Rightarrow> string list \<Rightarrow> bool" where
  "in_selected v selected = (case v of JStr s \<Rightarrow> s \<in> set selected | _ \<Rightarrow> False)"

record response =
  resp_body :: string
  status :: nat

text \<open>
  What the handler returns, and the limit of the sweep whose thread it started, if it
  started one.
\<close>

record reply =
  response_of :: response
  dispatched :: "nat option option"

definition bad_request :: "world \<Rightarrow> (exn + reply) \<times> world" where
  "bad_request w =
     (Inr \<lparr>response_of = \<lparr>resp_body = ''Bad Request: Missing payload'', status = 400\<rparr>,
           dispatched = None\<rparr>,
      add_log (Msg ''No payload received in form data'') w)"

text \<open>
  The \<open>try\<close> block of \<open>plex_webhook\<close>. \<open>json.loads\<close> is a parameter; \<open>not payload\<close> holds of a
  missing field and of the empty string.
\<close>

definition plex_webhook_try ::
  "(string \<Rightarrow> exn + json) \<Rightarrow> string list \<Rightarrow> nat option \<Rightarrow> string option \<Rightarrow> world \<Rightarrow>
     (exn + reply) \<times> world" where
  "plex_webhook_try loads selected batch_size payload w =
     (case payload of
        None \<Rightarrow> bad_request w
      | Some p \<Rightarrow>
          if p = [] then bad_request w
          else
            (case loads p of
               Inl e \<Rightarrow> (Inl e, w)
             | Inr data \<Rightarrow>
                 (case py_get data ''event'' (JStr []) of
                    Inl e \<Rightarrow> (Inl e, w)
                  | Inr event \<Rightarrow>
                      (case py_get data ''Metadata'' (JObj []) of
                         Inl e \<Rightarrow> (Inl e, w)
                       | Inr metadata \<Rightarrow>
                           (case py_get metadata ''librarySectionTitle'' (JStr []) of
                              Inl e \<Rightarrow> (Inl e, w)
                            | Inr section \<Rightarrow>
                                (let w1 = add_log (Webhook event section) w in
                                 case py_lower event of
                                   Inl e \<Rightarrow> (Inl e, w1)
                                 | Inr lowered \<Rightarrow>
                                     if contains ''new'' lowered \<and> in_selected section selected then
                                       (Inr \<lparr>response_of = \<lparr>resp_body = [], status = 204\<rparr>,
                                             dispatched = Some batch_size\<rparr>, w1)
                                     else
                                       (Inr \<lparr>response_of = \<lparr>resp_body = ''Ignored'', status = 200\<rparr>,
                                             dispatched = None\<rparr>, w1)))))))"

definition plex_webhook ::
  "(string \<Rightarrow> exn + json) \<Rightarrow> string list \<Rightarrow> nat option \<Rightarrow> string option \<Rightarrow> world \<Rightarrow> reply \<times> world" where
  "plex_webhook loads selected batch_size payload w =
     (case plex_webhook_try loads selected batch_size payload
             (add_log (Msg ''Webhook received - start'') w) of
        (Inr r, w') \<Rightarrow> (r, w')
      | (Inl e, w') \<Rightarrow>
          (\<lparr>response_of = \<lparr>resp_body = ''Error'', status = 500\<rparr>, dispatched = None\<rparr>,
           add_log (Webhook_error e) w'))"

text \<open>
  The words of the specification on a payload, stated without the functions of the
  handler. An event mentions \<open>new\<close> when the three letters occur in it side by side,
  each in either case. A key of an object has a value, or is missing and stands for a
  default. A payload is well formed when it is present, it parses to an object whose
  \<open>event\<close> is a string and whose \<open>Metadata\<close> is an object, with the defaults \<open>''\<close> and \<open>{}\<close>
  for a missing key; and it matches when the event mentions \<open>new\<close> and the section title
  is a selected library.
\<close>

definition mentions_new :: "string \<Rightarrow> bool" where
  "mentions_new ev =
     (\<exists>pre a b c post. ev = pre @ [a, b, c] @ post
        \<and> (a = CHR ''n'' \<or> a = CHR ''N'')
        \<and> (b = CHR ''e'' \<or> b = CHR ''E'')
        \<and> (c = CHR ''w'' \<or> c = CHR ''W''))"

definition lookup_or :: "(string \<times> json) list \<Rightarrow> string \<Rightarrow> json \<Rightarrow> json \<Rightarrow> bool" where
  "lookup_or items key dflt v =
     (map_of items key = Some v \<or> map_of items key = None \<and> v = dflt)"

definition well_formed :: "(string \<Rightarrow> exn + json) \<Rightarrow> string option \<Rightarrow> (string \<times> json) list \<Rightarrow> string \<Rightarrow> json \<Rightarrow> bool" where
  "well_formed loads payload items ev section =
     (\<exists>p mitems. payload = Some p \<and> p \<noteq> [] \<and> loads p = Inr (JObj items)
        \<and> lookup_or items ''event'' (JStr []) (JStr ev)
        \<and> lookup_or items ''Metadata'' (JObj []) (JObj mitems)
        \<and> lookup_or mitems ''librarySectionTitle'' (JStr []) section)"

definition matches :: "string \<Rightarrow> json \<Rightarrow> string list \<Rightarrow> bool" where
  "matches ev section selected =
     (mentions_new ev \<and> (\<exists>sec. section = JStr sec \<and> sec \<in> set selected))"

section \<open>Settings update: the POST branch of \<open>settings\<close>\<close>

text \<open>
  What \<open>float()\<close> returns: a finite number, \<open>nan\<close> (for \<open>'nan'\<close>), \<open>inf\<close> or \<open>-inf\<close> (for
  \<open>'inf'\<close>, \<open>'-infinity'\<close>, \<open>'1e999'\<close>).
\<close>

datatype pyfloat = FNum real | FNan | FInf | FNeg_inf

text \<open>
  \<open>val_f < c\<close> and \<open>val_f > c\<close> for a finite \<open>c\<close>: both are false of \<open>nan\<close>. \<open>(val_f * 2) % 1 != 0\<close>:
  for \<open>nan\<close> and the infinities the remainder is \<open>nan\<close>, which differs from 0. The value
  that is stored is the float itself.
\<close>

fun float_lt :: "pyfloat \<Rightarrow> real \<Rightarrow> bool" where
  "float_lt (FNum r) c = (r < c)"
| "float_lt FNan c = False"
| "float_lt FInf c = False"
| "float_lt FNeg_inf c = True"

fun float_gt :: "pyfloat \<Rightarrow> real \<Rightarrow> bool" where
  "float_gt (FNum r) c = (r > c)"
| "float_gt FNan c = False"
| "float_gt FInf c = True"
| "float_gt FNeg_inf c = False"

fun off_half_step :: "pyfloat \<Rightarrow> bool" where
  "off_half_step (FNum r) = (frac (r * 2) \<noteq> 0)"
| "off_half_step FNan = True"
| "off_half_step FInf = True"
| "off_half_step FNeg_inf = True"

fun as_value :: "pyfloat \<Rightarrow> pyval" where
  "as_value (FNum r) = PNum r"
| "as_value FNan = PNan"
| "as_value FInf = PInf"
| "as_value FNeg_inf = PNeg_inf"

text \<open>
  The builtins \<open>float\<close> and \<open>int\<close> on a string are parameters (\<open>None\<close>: \<open>ValueError\<close>); on a
  field that is missing from the form (\<open>None\<close>) both raise \<open>TypeError\<close>.
\<close>

record builtins =
  float_of :: "string \<Rightarrow> pyfloat option"
  int_of :: "string \<Rightarrow> int option"

definition py_float :: "builtins \<Rightarrow> string option \<Rightarrow> exn + pyfloat" where
  "py_float b v =
     (case v of
        None \<Rightarrow> Inl TypeError
      | Some s \<Rightarrow>
          (case float_of b s of
             None \<Rightarrow> Inl (ValueError ''could not convert string to float'')
           | Some r \<Rightarrow> Inr r))"

definition py_int :: "builtins \<Rightarrow> string option \<Rightarrow> exn + int" where
  "py_int b v =
     (case v of
        None \<Rightarrow> Inl TypeError
      | Some s \<Rightarrow>
          (case int_of b s of
             None \<Rightarrow> Inl (ValueError ''invalid literal for int()'')
           | Some n \<Rightarrow> Inr n))"

text \<open>The fields of the submitted form, as \<open>request.form\<close> gives them.\<close>

record form =
  form_libraries :: "string list"
  form_rating_style :: "string option"
  form_rating_value :: "string option"
  form_override_rating :: "string option"
  form_batch_interval_minutes :: "string option"

text \<open>
  The globals the handler assigns: \<open>SELECTED_LIBRARIES\<close>, \<open>music_libs\<close>, the three of the
  rating configuration, \<open>BATCH_INTERVAL_MINUTES\<close>, and the effects.
\<close>

record settings_state =
  selected_libraries :: "string list"
  music_libs :: "library list"
  rating :: rating_config
  batch_interval_minutes :: int
  effects_of :: world

definition log_to :: "log_msg \<Rightarrow> settings_state \<Rightarrow> settings_state" where
  "log_to m st = st\<lparr>effects_of := add_log m (effects_of st)\<rparr>"

definition update_libraries :: "client \<Rightarrow> string list \<Rightarrow> form \<Rightarrow> settings_state \<Rightarrow> settings_state" where
  "update_libraries cl libraries f st =
     (let valid_libs = filter (\<lambda>lib. lib \<in> set libraries) (form_libraries f) in
      if valid_libs \<noteq> [] then
        (case load_music_libs cl valid_libs (effects_of st) of
           (libs, w) \<Rightarrow>
             log_to (Libraries_changed valid_libs)
               (st\<lparr>selected_libraries := valid_libs, music_libs := libs, effects_of := w\<rparr>))
      else log_to (Msg ''Invalid library selection attempted or no libraries selected.'') st)"

definition update_style :: "form \<Rightarrow> settings_state \<Rightarrow> settings_state" where
  "update_style f st =
     (case form_rating_style f of
        None \<Rightarrow> log_to (Invalid_style None) st
      | Some style \<Rightarrow>
          if style \<in> set [''1star'', ''5stars'', ''5stars_half''] then
            st\<lparr>rating := (rating st)\<lparr>rating_style := Some style\<rparr>\<rparr>
          else log_to (Invalid_style (Some style)) st)"

text \<open>The \<open>try\<close> block that computes \<open>val_f\<close> from the style in force.\<close>

definition rating_value_try :: "builtins \<Rightarrow> string option \<Rightarrow> string option \<Rightarrow> exn + pyval" where
  "rating_value_try b style v =
     (if style = Some ''1star'' then
        (case py_float b v of
           Inl e \<Rightarrow> Inl e
         | Inr val_f \<Rightarrow>
             if float_lt val_f 0 \<or> float_gt val_f 1
             then Inl (ValueError ''1star rating must be 0 or 1'')
             else Inr (as_value val_f))
      else if style = Some ''5stars'' then
        (case py_int b v of
           Inl e \<Rightarrow> Inl e
         | Inr val_f \<Rightarrow>
             if val_f < 1 \<or> val_f > 5 then Inl (ValueError ''5stars rating must be 1-5 integer'')
             else Inr (PNum (of_int val_f)))
      else if style = Some ''5stars_half'' then
        (case py_float b v of
           Inl e \<Rightarrow> Inl e
         | Inr val_f \<Rightarrow>
             if float_lt val_f 1 \<or> float_gt val_f 5 \<or> off_half_step val_f
             then Inl (ValueError ''5stars_half rating must be 1-5 in 0.5 steps'')
             else Inr (as_value val_f))
      else Inr (PNum 5))"

definition update_value :: "builtins \<Rightarrow> form \<Rightarrow> settings_state \<Rightarrow> settings_state" where
  "update_value b f st =
     (case rating_value_try b (rating_style (rating st)) (form_rating_value f) of
        Inr val_f \<Rightarrow> st\<lparr>rating := (rating st)\<lparr>rating_value := val_f\<rparr>\<rparr>
      | Inl e \<Rightarrow> log_to (Invalid_value (form_rating_value f) e) st)"

definition update_override :: "form \<Rightarrow> settings_state \<Rightarrow> settings_state" where
  "update_override f st =
     st\<lparr>rating := (rating st)\<lparr>override_rating := (form_override_rating f = Some ''on'')\<rparr>\<rparr>"

definition batch_interval_try :: "builtins \<Rightarrow> string option \<Rightarrow> exn + int" where
  "batch_interval_try b v =
     (case py_int b v of
        Inl e \<Rightarrow> Inl e
      | Inr batch_int \<Rightarrow>
          if batch_int < 0 then Inl (ValueError ''Batch interval must be >= 0'')
          else Inr batch_int)"

definition update_interval :: "builtins \<Rightarrow> form \<Rightarrow> settings_state \<Rightarrow> settings_state" where
  "update_interval b f st =
     (case batch_interval_try b (form_batch_interval_minutes f) of
        Inr batch_int \<Rightarrow> log_to (Interval_set batch_int) (st\<lparr>batch_interval_minutes := batch_int\<rparr>)
      | Inl e \<Rightarrow> log_to (Invalid_interval (form_batch_interval_minutes f) e) st)"

text \<open>
  The handler up to the new globals, in the order of the source; \<open>libraries\<close> is the result
  of \<open>get_music_libraries()\<close>. Saving the settings file and \<open>start_batch_thread()\<close> follow.
\<close>

definition settings_post ::
  "client \<Rightarrow> builtins \<Rightarrow> string list \<Rightarrow> form \<Rightarrow> settings_state \<Rightarrow> settings_state" where
  "settings_post cl b libraries f st =
     (let st1 = update_libraries cl libraries f st;
          st2 = update_style f st1;
          st3 = update_value b f st2;
          st4 = update_override f st3;
          st5 = update_interval b f st4;
          st6 = log_to (Style_value_set (rating_style (rating st5)) (rating_value (rating st5))) st5
      in log_to (Override_set (override_rating (rating st6))) st6)"

text \<open>
  The constraint of the specification on the value of a style. Only a finite number
  can satisfy the constraint of one of the three styles.
\<close>

definition satisfies_constraint :: "string \<Rightarrow> pyfloat \<Rightarrow> bool" where
  "satisfies_constraint style x =
     (case x of
        FNum v \<Rightarrow>
          (if style = ''1star'' then v = 0 \<or> v = 1
           else if style = ''5stars'' then v \<in> \<int> \<and> 1 \<le> v \<and> v \<le> 5
           else if style = ''5stars_half'' then 1 \<le> v \<and> v \<le> 5 \<and> v * 2 \<in> \<int>
           else True)
      | _ \<Rightarrow> style \<notin> {''1star'', ''5stars'', ''5stars_half''})"

text \<open>The style in force when the value is checked: the submitted one when it is valid.\<close>

definition style_in_force :: "form \<Rightarrow> settings_state \<Rightarrow> string option" where
  "style_in_force f st =
     (case form_rating_style f of
        None \<Rightarrow> rating_style (rating st)
      | Some style \<Rightarrow>
          if style \<in> set [''1star'', ''5stars'', ''5stars_half''] then Some style
          else rating_style (rating st))"

section \<open>Reset: the thread of \<open>reset_ratings\<close>\<close>

text \<open>The loop over the tracks of one library; it ends at the first call that raises.\<close>

fun reset_tracks :: "client \<Rightarrow> track list \<Rightarrow> world \<Rightarrow> exn option \<times> world" where
  "reset_tracks cl [] w = (None, w)"
| "reset_tracks cl (t # ts) w =
     (case userRating t of
        None \<Rightarrow> reset_tracks cl ts w
      | Some current \<Rightarrow>
          (case call_rate cl t None w of
             (Some e, w') \<Rightarrow> (Some e, w')
           | (None, w') \<Rightarrow> reset_tracks cl ts (add_log (Cleared (title t)) w')))"

text \<open>The \<open>try\<close> block of one library, with its handler.\<close>

definition reset_library :: "client \<Rightarrow> library \<Rightarrow> world \<Rightarrow> world" where
  "reset_library cl lib w =
     (case searchTracks cl lib None of
        Inl e \<Rightarrow> add_log (Error_in (lib_title lib) e) w
      | Inr tracks \<Rightarrow>
          (case reset_tracks cl tracks w of
             (None, w') \<Rightarrow> w'
           | (Some e, w') \<Rightarrow> add_log (Error_in (lib_title lib) e) w'))"

fun reset :: "client \<Rightarrow> library list \<Rightarrow> world \<Rightarrow> world" where
  "reset cl [] w = w"
| "reset cl (lib # libs) w = reset cl libs (reset_library cl lib w)"

section \<open>PeriodicScheduler: \<open>periodic_batch_trigger\<close> and \<open>start_batch_thread\<close>\<close>

text \<open>
  The scheduler is a transition system. Its state holds the globals
  \<open>BATCH_INTERVAL_MINUTES\<close> and \<open>batch_thread_stop_event\<close>, every thread that
  \<open>start_batch_thread\<close> has created (the last one is \<open>batch_thread\<close>), the threads that serve
  settings updates and call \<open>start_batch_thread\<close>, a clock in seconds, and the periodic
  dispatches so far, newest first, each with the time of the call of \<open>rate_new_tracks\<close> and
  the length of the sleep before it.

  Every read and every write of a global is a step of its own. A loop thread is at the
  first log line (\<open>L_begin\<close>), at the test of the \<open>while\<close>, which reads the stop event
  (\<open>L_head\<close>), at the test \<open>BATCH_INTERVAL_MINUTES == 0\<close>, which reads the interval
  (\<open>L_test\<close>), at the call of \<open>time.sleep\<close>, which reads the interval again
  (\<open>L_sleep_call\<close>), inside \<open>time.sleep\<close> of \<open>d\<close> seconds that ends at \<open>wake\<close>
  (\<open>L_sleep d wake\<close>), at the test of the stop event after the sleep (\<open>L_woke d\<close>), inside
  \<open>rate_new_tracks\<close> (\<open>L_sweep\<close>), or has returned (\<open>L_exit\<close>).

  A thread that serves settings updates is outside the handler (\<open>C_idle\<close>), between the
  assignment of \<open>BATCH_INTERVAL_MINUTES\<close> and the call of \<open>start_batch_thread\<close> (\<open>C_update\<close>),
  or at one of the statements of \<open>start_batch_thread\<close>: the test \<open>is_alive()\<close> (\<open>C_check\<close>),
  \<open>set()\<close> (\<open>C_set\<close>), the call of \<open>join\<close>, which reads \<open>batch_thread\<close> (\<open>C_join_call\<close>), inside
  \<open>join\<close> of the thread \<open>j\<close> that it read (\<open>C_join j\<close>), \<open>clear()\<close> (\<open>C_clear\<close>), and the test of
  the interval with the start of the new thread (\<open>C_spawn\<close>).
\<close>

datatype loop_pc =
    L_begin
  | L_head
  | L_test
  | L_sleep_call
  | L_sleep nat nat
  | L_woke nat
  | L_sweep
  | L_exit

datatype caller_pc =
    C_idle
  | C_update
  | C_check
  | C_set
  | C_join_call
  | C_join nat
  | C_clear
  | C_spawn

record sched =
  interval :: int
  stop_event :: bool
  loops :: "loop_pc list"
  callers :: "caller_pc list"
  now :: nat
  dispatches :: "(nat \<times> nat) list"
  sched_log :: "log_msg list"

definition say :: "log_msg \<Rightarrow> sched \<Rightarrow> sched" where
  "say m s = s\<lparr>sched_log := sched_log s @ [m]\<rparr>"

definition is_alive :: "loop_pc \<Rightarrow> bool" where
  "is_alive p = (p \<noteq> L_exit)"

definition batch_thread_alive :: "sched \<Rightarrow> bool" where
  "batch_thread_alive s = (loops s \<noteq> [] \<and> is_alive (last (loops s)))"

definition at_loop :: "nat \<Rightarrow> loop_pc \<Rightarrow> sched \<Rightarrow> sched" where
  "at_loop i p s = s\<lparr>loops := (loops s)[i := p]\<rparr>"

definition at_caller :: "nat \<Rightarrow> caller_pc \<Rightarrow> sched \<Rightarrow> sched" where
  "at_caller k p s = s\<lparr>callers := (callers s)[k := p]\<rparr>"

text \<open>
  One step of the loop thread \<open>i\<close>; \<open>None\<close> when it cannot move: it has returned, or its
  sleep has not run out. The interval is read at \<open>L_begin\<close> for the log line, at \<open>L_test\<close>
  and at \<open>L_sleep_call\<close>; the stop event at \<open>L_head\<close> and at \<open>L_woke\<close>. \<open>time.sleep\<close> of a
  negative number raises, which ends the thread; \<open>time.sleep(0)\<close> returns at once.
\<close>

definition periodic_batch_trigger_step :: "nat \<Rightarrow> sched \<Rightarrow> sched option" where
  "periodic_batch_trigger_step i s =
     (if i < length (loops s) then
        (case loops s ! i of
           L_begin \<Rightarrow> Some (at_loop i L_head (say (Trigger_thread_started (interval s)) s))
         | L_head \<Rightarrow>
             if stop_event s then Some (at_loop i L_exit s) else Some (at_loop i L_test s)
         | L_test \<Rightarrow>
             if interval s = 0 then
               Some (at_loop i L_exit (say (Msg ''Batch interval is 0 - periodic batch trigger disabled.'') s))
             else Some (at_loop i L_sleep_call s)
         | L_sleep_call \<Rightarrow>
             if interval s < 0 then Some (at_loop i L_exit s)
             else Some (at_loop i (L_sleep (nat (interval s * 60)) (now s + nat (interval s * 60))) s)
         | L_sleep d wake \<Rightarrow> if wake \<le> now s then Some (at_loop i (L_woke d) s) else None
         | L_woke d \<Rightarrow>
             if stop_event s then Some (at_loop i L_exit s)
             else Some (at_loop i L_sweep
                          ((say (Msg ''Periodic batch trigger started'') s)
                             \<lparr>dispatches := (now s, d) # dispatches s\<rparr>))
         | L_sweep \<Rightarrow> Some (at_loop i L_head (say (Msg ''Periodic batch trigger finished'') s))
         | L_exit \<Rightarrow> None)
      else None)"

text \<open>
  One step of the thread \<open>k\<close> that serves settings updates, from the assignment of the
  interval to the end of \<open>start_batch_thread\<close>; \<open>None\<close> when it is outside the handler, or
  waits in \<open>join\<close> for a thread that is alive. \<open>join\<close> waits for the thread that
  \<open>batch_thread\<close> named when \<open>join\<close> was called.
\<close>

definition start_batch_thread_step :: "nat \<Rightarrow> sched \<Rightarrow> sched option" where
  "start_batch_thread_step k s =
     (if k < length (callers s) then
        (case callers s ! k of
           C_idle \<Rightarrow> None
         | C_update \<Rightarrow> Some (at_caller k C_check s)
         | C_check \<Rightarrow> Some (at_caller k (if batch_thread_alive s then C_set else C_clear) s)
         | C_set \<Rightarrow> Some (at_caller k C_join_call (s\<lparr>stop_event := True\<rparr>))
         | C_join_call \<Rightarrow> Some (at_caller k (C_join (length (loops s) - 1)) s)
         | C_join j \<Rightarrow>
             if j < length (loops s) \<and> is_alive (loops s ! j) then None
             else Some (at_caller k C_clear s)
         | C_clear \<Rightarrow> Some (at_caller k C_spawn (s\<lparr>stop_event := False\<rparr>))
         | C_spawn \<Rightarrow>
             if interval s > 0 then
               Some (at_caller k C_idle
                       (say (Batch_thread_started (interval s)) (s\<lparr>loops := loops s @ [L_begin]\<rparr>)))
             else
               Some (at_caller k C_idle
                       (say (Msg ''Batch thread NOT started because batch interval is set to 0'') s)))
      else None)"

text \<open>
  The handler of a settings update reaches the batch interval of the form: \<open>int()\<close> gave
  \<open>n\<close> (\<open>Some n\<close>; the handler assigns it when it is not negative and keeps the old
  interval otherwise) or raised (\<open>None\<close>, the old interval is kept). The call of
  \<open>start_batch_thread\<close> comes later, at the end of the handler.
\<close>

definition settings_interval :: "nat \<Rightarrow> int option \<Rightarrow> sched \<Rightarrow> sched option" where
  "settings_interval k v s =
     (if k < length (callers s) \<and> callers s ! k = C_idle then
        (case v of
           None \<Rightarrow> Some (at_caller k C_update s)
         | Some n \<Rightarrow>
             if n < 0 then Some (at_caller k C_update s)
             else Some (at_caller k C_update (s\<lparr>interval := n\<rparr>)))
      else None)"

datatype sched_action = Call nat "int option" | Caller nat | Loop nat | Tick

fun sched_step :: "sched_action \<Rightarrow> sched \<Rightarrow> sched option" where
  "sched_step (Call k v) s = settings_interval k v s"
| "sched_step (Caller k) s = start_batch_thread_step k s"
| "sched_step (Loop i) s = periodic_batch_trigger_step i s"
| "sched_step Tick s = Some (s\<lparr>now := now s + 1\<rparr>)"

fun sched_run :: "sched_action list \<Rightarrow> sched \<Rightarrow> sched option" where
  "sched_run [] s = Some s"
| "sched_run (a # as) s = (case sched_step a s of None \<Rightarrow> None | Some s' \<Rightarrow> sched_run as s')"

text \<open>
  The process after import: the main thread is about to run \<open>start_batch_thread()\<close>, with
  the interval of the settings; \<open>k\<close> further threads will serve settings updates.
\<close>

definition boot :: "nat \<Rightarrow> int \<Rightarrow> sched" where
  "boot k iv =
     \<lparr>interval = iv, stop_event = False, loops = [], callers = C_check # replicate k C_idle,
      now = 0, dispatches = [], sched_log = []\<rparr>"

definition active_loops :: "sched \<Rightarrow> nat" where
  "active_loops s = length (filter is_alive (loops s))"

text \<open>
  Every dispatch comes after a sleep of a whole number of minutes, and that sleep lies
  between it and the dispatch before it. The sleep may have length 0.
\<close>

fun slept_between :: "(nat \<times> nat) list \<Rightarrow> bool" where
  "slept_between ((t2, d2) # (t1, d1) # older) =
     (60 dvd d2 \<and> t1 + d2 \<le> t2 \<and> slept_between ((t1, d1) # older))"
| "slept_between [(t, d)] = (60 dvd d)"
| "slept_between [] = True"

text \<open>The invariant of the runs in which one thread makes all the calls.\<close>

definition timing :: "loop_pc \<Rightarrow> sched \<Rightarrow> bool" where
  "timing p s =
     (case p of
        L_sleep d wake \<Rightarrow> 60 dvd d \<and> (\<forall>(t, d') \<in> set (dispatches s). t + d \<le> wake)
      | L_woke d \<Rightarrow> 60 dvd d \<and> (\<forall>(t, d') \<in> set (dispatches s). t + d \<le> now s)
      | _ \<Rightarrow> True)"

definition caller_inv :: "caller_pc \<Rightarrow> sched \<Rightarrow> bool" where
  "caller_inv c s =
     ((c = C_clear \<or> c = C_spawn \<longrightarrow> \<not> batch_thread_alive s)
      \<and> (c = C_join_call \<longrightarrow> stop_event s)
      \<and> (\<forall>j. c = C_join j \<longrightarrow> stop_event s \<and> j = length (loops s) - 1)
      \<and> (c = C_idle \<and> interval s \<le> 0 \<longrightarrow> \<not> batch_thread_alive s))"

definition sched_inv :: "sched \<Rightarrow> bool" where
  "sched_inv s =
     ((\<exists>c. callers s = [c] \<and> caller_inv c s)
      \<and> (\<forall>p \<in> set (butlast (loops s)). p = L_exit)
      \<and> (\<forall>(t, d) \<in> set (dispatches s). t \<le> now s)
      \<and> (loops s \<noteq> [] \<longrightarrow> timing (last (loops s)) s)
      \<and> slept_between (dispatches s))"


section \<open>Example inputs\<close>

definition no_effects :: world where
  "no_effects = \<lparr>logged = [], calls = []\<rparr>"

definition free_gate :: gate where
  "free_gate = \<lparr>batch_lock = False, batch_running = False\<rparr>"

definition five_stars_3 :: rating_config where
  "five_stars_3 = \<lparr>rating_style = Some ''5stars'', rating_value = PNum 3, override_rating = True\<rparr>"

definition track_a :: track where "track_a = \<lparr>title = ''a'', userRating = None\<rparr>"
definition track_b :: track where "track_b = \<lparr>title = ''b'', userRating = Some 6\<rparr>"
definition track_c :: track where "track_c = \<lparr>title = ''c'', userRating = Some 10\<rparr>"

definition music :: library where "music = \<lparr>lib_title = ''Music''\<rparr>"
definition jazz :: library where "jazz = \<lparr>lib_title = ''Jazz''\<rparr>"

text \<open>A server on which every library holds the three tracks and every call returns.\<close>

definition good_client :: client where
  "good_client =
     \<lparr>library_section = (\<lambda>name. Inr \<lparr>lib_title = name\<rparr>),
      searchTracks = (\<lambda>lib limit. Inr [track_a, track_b, track_c]),
      rate = (\<lambda>t r. None)\<rparr>"

text \<open>
  A server on which the library \<open>Jazz\<close> cannot be resolved or searched, the other
  libraries hold the three tracks, and rating the track \<open>a\<close> raises.
\<close>

definition flaky_client :: client where
  "flaky_client =
     \<lparr>library_section =
        (\<lambda>name. if name = ''Jazz'' then Inl (ClientError ''not found'') else Inr \<lparr>lib_title = name\<rparr>),
      searchTracks =
        (\<lambda>lib limit. if lib_title lib = ''Jazz'' then Inl (ClientError ''timeout'')
                      else Inr [track_a, track_b, track_c]),
      rate = (\<lambda>t r. if title t = ''a'' then Some (ClientError ''refused'') else None)\<rparr>"

text \<open>A server whose libraries hold no track.\<close>

definition empty_client :: client where
  "empty_client =
     \<lparr>library_section = (\<lambda>name. Inr \<lparr>lib_title = name\<rparr>),
      searchTracks = (\<lambda>lib limit. Inr []),
      rate = (\<lambda>t r. None)\<rparr>"

definition empty_log_system :: log_system where
  "empty_log_system =
     \<lparr>event_log_of = \<lparr>rating_log = [], listeners = [], logging_info = []\<rparr>, delivered = []\<rparr>"

definition six_hundred :: "log_op list" where
  "six_hundred = map (\<lambda>n. Append ''2025-01-01 00:00:00'' (replicate n CHR ''x'')) [0..<600]"

text \<open>A stand-in for \<open>json.loads\<close> that knows three payloads and rejects the others.\<close>

definition example_loads :: "string \<Rightarrow> exn + json" where
  "example_loads p =
     (if p = ''new in Music'' then
        Inr (JObj [(''event'', JStr ''library.NEW''),
                   (''Metadata'', JObj [(''librarySectionTitle'', JStr ''Music'')])])
      else if p = ''new in Films'' then
        Inr (JObj [(''event'', JStr ''library.new''),
                   (''Metadata'', JObj [(''librarySectionTitle'', JStr ''Films'')])])
      else if p = ''play in Music'' then
        Inr (JObj [(''event'', JStr ''media.play''),
                   (''Metadata'', JObj [(''librarySectionTitle'', JStr ''Music'')])])
      else if p = ''null event'' then
        Inr (JObj [(''event'', JNull),
                   (''Metadata'', JObj [(''librarySectionTitle'', JStr ''Music'')])])
      else if p = ''a list'' then Inr (JArr [JNum 1])
      else Inl JSONDecodeError)"

text \<open>A settings update that submits the value 7 for the style \<open>5stars\<close>.\<close>

definition prior_state :: settings_state where
  "prior_state =
     \<lparr>selected_libraries = [''Music''], music_libs = [music],
      rating = \<lparr>rating_style = Some ''1star'', rating_value = PNum 1, override_rating = False\<rparr>,
      batch_interval_minutes = 60, effects_of = no_effects\<rparr>"

definition example_builtins :: builtins where
  "example_builtins =
     \<lparr>float_of = (\<lambda>s. if s = ''7'' then Some (FNum 7) else if s = ''0.5'' then Some (FNum (1/2))
                       else if s = ''1'' then Some (FNum 1)
                       else if s = ''60'' then Some (FNum 60)
                       else if s = ''nan'' then Some FNan
                       else if s = ''inf'' then Some FInf else None),
      int_of = (\<lambda>s. if s = ''7'' then Some 7 else if s = ''1'' then Some 1
                     else if s = ''60'' then Some 60 else None)\<rparr>"


text \<open>A settings update that submits the value \<open>nan\<close> for the style \<open>1star\<close>.\<close>

definition nan_for_one_star :: form where
  "nan_for_one_star =
     \<lparr>form_libraries = [''Music''], form_rating_style = Some ''1star'',
      form_rating_value = Some ''nan'', form_override_rating = None,
      form_batch_interval_minutes = Some ''60''\<rparr>"

text \<open>A server that holds the three tracks and refuses to rate the track \<open>b\<close>.\<close>

definition refusing_client :: client where
  "refusing_client =
     \<lparr>library_section = (\<lambda>name. Inr \<lparr>lib_title = name\<rparr>),
      searchTracks = (\<lambda>lib limit. Inr [track_a, track_b, track_c]),
      rate = (\<lambda>t r. if title t = ''b'' then Some (ClientError ''refused'') else None)\<rparr>"

text \<open>Schedules of the scheduler, and two of its states.\<close>

definition overlapping_calls :: "sched_action list" where
  "overlapping_calls =
     [Caller 0, Caller 0, Caller 0, Call 0 (Some 2), Call 1 None,
      Caller 0, Caller 1, Caller 0, Caller 1, Caller 0, Caller 1, Caller 0, Caller 1,
      Loop 0, Loop 0,
      Caller 0, Caller 1, Caller 0, Caller 1, Caller 0, Caller 1]"

definition stop_to_zero :: "sched_action list" where
  "stop_to_zero =
     [Caller 0, Caller 0, Caller 0, Call 0 (Some 0), Caller 0, Caller 0, Caller 0, Caller 0,
      Loop 0, Loop 0, Caller 0, Caller 0, Caller 0]"

definition two_dispatches :: "sched_action list" where
  "two_dispatches =
     [Caller 0, Caller 0, Caller 0, Loop 0, Loop 0, Loop 0, Loop 0] @ replicate 60 Tick
     @ [Loop 0, Loop 0, Loop 0, Loop 0, Loop 0, Loop 0] @ replicate 60 Tick @ [Loop 0, Loop 0]"

definition zero_between_reads :: "sched_action list" where
  "zero_between_reads =
     [Caller 0, Caller 0, Caller 0, Loop 0, Loop 0, Loop 0, Loop 0] @ replicate 60 Tick
     @ [Loop 0, Loop 0, Loop 0, Loop 0, Loop 0, Call 0 (Some 0), Loop 0, Loop 0, Loop 0]"

definition stop_while_asleep :: "sched_action list" where
  "stop_while_asleep =
     [Caller 0, Caller 0, Caller 0, Loop 0, Loop 0, Loop 0, Loop 0, Tick, Call 0 (Some 0),
      Caller 0, Caller 0, Caller 0, Caller 0]"

definition asleep_state :: sched where
  "asleep_state =
     \<lparr>interval = 1, stop_event = False, loops = [L_sleep 60 60], callers = [C_idle], now = 0,
      dispatches = [], sched_log = [Batch_thread_started 1, Trigger_thread_started 1]\<rparr>"

definition stop_requested_state :: sched where
  "stop_requested_state =
     \<lparr>interval = 0, stop_event = True, loops = [L_sleep 60 60], callers = [C_join 0], now = 1,
      dispatches = [], sched_log = [Batch_thread_started 1, Trigger_thread_started 1]\<rparr>"

section \<open>Theorems\<close>

text \<open>
  C3. For a numeric value, \<open>convert_to_plex_rating\<close> returns 10 or 0 for the \<open>1star\<close> style
  according to whether the value is at least 1, and \<open>(value / 5) * 10\<close> clamped to [2, 10]
  for the two five-star styles; the result is always in [0, 10], and in [2, 10] for the
  five-star styles; whenever the computation raises, the result is 6.
\<close>

theorem convert_to_plex_rating_spec:
  "convert_to_plex_rating (Some ''1star'') (PNum v) = (if v \<ge> 1 then 10 else 0)
   \<and> (style \<in> {''5stars'', ''5stars_half''} \<longrightarrow>
        convert_to_plex_rating (Some style) (PNum v) = max 2 (min 10 ((v / 5) * 10))
        \<and> 2 \<le> convert_to_plex_rating (Some style) (PNum v)
        \<and> convert_to_plex_rating (Some style) (PNum v) \<le> 10)
   \<and> 0 \<le> convert_to_plex_rating st (PNum v) \<and> convert_to_plex_rating st (PNum v) \<le> 10
   \<and> (\<forall>e. plex_rating_try st x = Inl e \<longrightarrow> convert_to_plex_rating st x = 6)"
  by (auto simp: convert_to_plex_rating_def)

theorem convert_to_plex_rating_spec_witness:
  "convert_to_plex_rating (Some ''1star'') (PNum 3) = 10
   \<and> ''5stars'' \<in> {''5stars'', ''5stars_half''}
   \<and> convert_to_plex_rating (Some ''5stars'') (PNum 3) = 6
   \<and> plex_rating_try (Some ''5stars'') PNone = Inl TypeError
   \<and> convert_to_plex_rating (Some ''5stars'') PNone = 6"
  using convert_to_plex_rating_spec [of 3 "''5stars''" "Some ''5stars''" PNone]
  by simp

subsection \<open>The decision for each track\<close>

lemma rate_track_classify:
  "rate_track cl tg ov idx t c w =
     (case classify (userRating t) tg ov of
        SKIP \<Rightarrow> (c\<lparr>skipped := skipped c + 1\<rparr>, w)
      | RATE \<Rightarrow>
          (case rate cl t (Some tg) of
             None \<Rightarrow> (c\<lparr>rated := rated c + 1\<rparr>, add_log (Rated idx (title t)) (issue t tg w))
           | Some e \<Rightarrow> (c, add_log (Error_rating (title t) e) (issue t tg w)))
      | UPDATE \<Rightarrow>
          (case rate cl t (Some tg) of
             None \<Rightarrow> (c\<lparr>updated := updated c + 1\<rparr>, add_log (Updated idx (title t)) (issue t tg w))
           | Some e \<Rightarrow> (c, add_log (Error_rating (title t) e) (issue t tg w))))"
  by (simp add: rate_track_def rate_track_try_def classify_def call_rate_def issue_def
      split: option.splits)

lemma loop_counts:
  "rate_tracks_loop cl tg ov idx ts c w = (c', w') \<Longrightarrow>
     rated c' = rated c + counted cl tg ov RATE ts
   \<and> updated c' = updated c + counted cl tg ov UPDATE ts
   \<and> skipped c' = skipped c + counted cl tg ov SKIP ts"
proof (induction ts arbitrary: idx c w)
  case Nil
  then show ?case by (simp add: counted_def)
next
  case (Cons t ts)
  obtain c1 w1 where s: "rate_track cl tg ov idx t c w = (c1, w1)" by force
  with Cons.prems have r: "rate_tracks_loop cl tg ov (idx + 1) ts c1 w1 = (c', w')" by simp
  note ih = Cons.IH [OF r]
  from s show ?case using ih
    by (cases "classify (userRating t) tg ov"; cases "rate cl t (Some tg)")
       (auto simp: rate_track_classify counted_def)
qed

lemma loop_calls:
  "rate_tracks_loop cl tg ov idx ts c w = (c', w') \<Longrightarrow>
     calls w' = calls w @ map (\<lambda>t. (t, Some tg)) (filter (\<lambda>t. classify (userRating t) tg ov \<noteq> SKIP) ts)"
proof (induction ts arbitrary: idx c w)
  case Nil
  then show ?case by simp
next
  case (Cons t ts)
  obtain c1 w1 where s: "rate_track cl tg ov idx t c w = (c1, w1)" by force
  with Cons.prems have r: "rate_tracks_loop cl tg ov (idx + 1) ts c1 w1 = (c', w')" by simp
  note ih = Cons.IH [OF r]
  from s show ?case using ih
    by (cases "classify (userRating t) tg ov"; cases "rate cl t (Some tg)")
       (auto simp: rate_track_classify issue_def add_log_def)
qed

lemma loop_lines:
  "rate_tracks_loop cl tg ov idx ts c w = (c', w') \<Longrightarrow>
     length (filter is_action (logged w')) =
       length (filter is_action (logged w)) + counted cl tg ov RATE ts + counted cl tg ov UPDATE ts
   \<and> length (filter is_summary (logged w')) = length (filter is_summary (logged w))"
proof (induction ts arbitrary: idx c w)
  case Nil
  then show ?case by (simp add: counted_def)
next
  case (Cons t ts)
  obtain c1 w1 where s: "rate_track cl tg ov idx t c w = (c1, w1)" by force
  with Cons.prems have r: "rate_tracks_loop cl tg ov (idx + 1) ts c1 w1 = (c', w')" by simp
  note ih = Cons.IH [OF r]
  from s show ?case using ih
    by (cases "classify (userRating t) tg ov"; cases "rate cl t (Some tg)")
       (auto simp: rate_track_classify issue_def add_log_def counted_def)
qed

lemma sweep_library_summary:
  "length (filter is_summary (logged (sweep_library cl cfg limit lib w))) =
     length (filter is_summary (logged w))
       + (case searchTracks cl lib limit of Inl e \<Rightarrow> 0 | Inr [] \<Rightarrow> 0 | Inr (t # ts) \<Rightarrow> 1)"
proof (cases "searchTracks cl lib limit")
  case (Inl e)
  then show ?thesis by (simp add: sweep_library_def sweep_library_try_def add_log_def)
next
  case (Inr tracks)
  show ?thesis
  proof (cases tracks)
    case Nil
    with Inr show ?thesis by (simp add: sweep_library_def sweep_library_try_def add_log_def)
  next
    case (Cons t ts)
    obtain c' w' where r: "rate_tracks cl cfg tracks (add_log (Processing (lib_title lib)) w) = (c', w')"
      by force
    from r have "length (filter is_summary (logged w')) =
        length (filter is_summary (logged (add_log (Processing (lib_title lib)) w)))"
      unfolding rate_tracks_def by (rule loop_lines [THEN conjunct2])
    with Inr Cons r show ?thesis
      by (simp add: sweep_library_def sweep_library_try_def add_log_def)
  qed
qed

text \<open>
  C2, as the code has it. The decision for a track is \<open>RATE\<close> when its rating is absent,
  \<open>UPDATE\<close> when it is present, the override is on and it differs from the target by more
  than 0.01, and \<open>SKIP\<close> otherwise. \<open>RATE\<close> and \<open>UPDATE\<close> issue the rate call with the target;
  the track is counted and one action line is logged when the call returns, and when the
  call raises no counter changes and an error line is logged instead. \<open>SKIP\<close> counts the
  track as skipped, with no call and no line. Over a list the three counters are the
  numbers of such tracks and the action lines are as many as the rated and updated
  tracks. A library logs one summary line when its fetch returns at least one track, and
  none when the fetch fails or returns nothing.
\<close>

theorem rate_tracks_decisions:
  "rate_track cl tg ov idx t c w =
     (case classify (userRating t) tg ov of
        SKIP \<Rightarrow> (c\<lparr>skipped := skipped c + 1\<rparr>, w)
      | RATE \<Rightarrow>
          (case rate cl t (Some tg) of
             None \<Rightarrow> (c\<lparr>rated := rated c + 1\<rparr>, add_log (Rated idx (title t)) (issue t tg w))
           | Some e \<Rightarrow> (c, add_log (Error_rating (title t) e) (issue t tg w)))
      | UPDATE \<Rightarrow>
          (case rate cl t (Some tg) of
             None \<Rightarrow> (c\<lparr>updated := updated c + 1\<rparr>, add_log (Updated idx (title t)) (issue t tg w))
           | Some e \<Rightarrow> (c, add_log (Error_rating (title t) e) (issue t tg w))))
   \<and> (case rate_tracks cl cfg ts w of
        (c', w') \<Rightarrow>
          (let target = convert_to_plex_rating (rating_style cfg) (rating_value cfg);
               override = override_rating cfg
           in rated c' = counted cl target override RATE ts
            \<and> updated c' = counted cl target override UPDATE ts
            \<and> skipped c' = counted cl target override SKIP ts
            \<and> calls w' = calls w @ map (\<lambda>t. (t, Some target))
                 (filter (\<lambda>t. classify (userRating t) target override \<noteq> SKIP) ts)
            \<and> length (filter is_action (logged w')) =
                 length (filter is_action (logged w)) + rated c' + updated c'
            \<and> length (filter is_summary (logged w')) = length (filter is_summary (logged w))))
   \<and> length (filter is_summary (logged (sweep_library cl cfg limit lib w))) =
       length (filter is_summary (logged w))
         + (case searchTracks cl lib limit of Inl e \<Rightarrow> 0 | Inr [] \<Rightarrow> 0 | Inr (t # ts) \<Rightarrow> 1)"
proof -
  obtain c' w' where r: "rate_tracks cl cfg ts w = (c', w')" by force
  then have l: "rate_tracks_loop cl (convert_to_plex_rating (rating_style cfg) (rating_value cfg))
      (override_rating cfg) 1 ts \<lparr>rated = 0, updated = 0, skipped = 0\<rparr> w = (c', w')"
    by (simp add: rate_tracks_def)
  show ?thesis
    using loop_counts [OF l] loop_calls [OF l] loop_lines [OF l] r
    by (simp add: rate_track_classify sweep_library_summary Let_def)
qed

text \<open>
  The library of three tracks: one unrated, one rated as the target, one rated otherwise
  with the override on, on a server whose calls return.
\<close>

theorem rate_tracks_decisions_witness:
  "rate_track good_client 6 True 1 track_a \<lparr>rated = 0, updated = 0, skipped = 0\<rparr> no_effects =
     (\<lparr>rated = 1, updated = 0, skipped = 0\<rparr>,
      \<lparr>logged = [Rated 1 ''a''], calls = [(track_a, Some 6)]\<rparr>)
   \<and> rate_tracks good_client five_stars_3 [track_a, track_b, track_c] no_effects =
       (\<lparr>rated = 1, updated = 1, skipped = 1\<rparr>,
        \<lparr>logged = [Rated 1 ''a'', Updated 3 ''c''],
         calls = [(track_a, Some 6), (track_c, Some 6)]\<rparr>)
   \<and> logged (sweep_library good_client five_stars_3 None music no_effects) =
       [Processing ''Music'', Rated 1 ''a'', Updated 3 ''c'', Summary ''Music'' 1 1 1]
   \<and> length (filter is_action (logged (sweep_library good_client five_stars_3 None music no_effects))) = 2
   \<and> length (filter is_summary (logged (sweep_library good_client five_stars_3 None music no_effects))) = 1"
  using rate_tracks_decisions [of good_client 6 True 1 track_a "\<lparr>rated = 0, updated = 0, skipped = 0\<rparr>"
      no_effects five_stars_3 "[track_a, track_b, track_c]" None music]
  by (simp add: good_client_def five_stars_3_def track_a_def track_b_def track_c_def music_def
      no_effects_def rate_tracks_def rate_track_def rate_track_try_def call_rate_def add_log_def
      issue_def classify_def convert_to_plex_rating_def sweep_library_def sweep_library_try_def)

text \<open>
  The claim as the specification words it fails twice: an unrated track whose rate call
  raises is not counted as rated and gets no action line, and a library whose fetch
  returns no track gets no summary line.
\<close>

theorem rate_tracks_claim_counterexample:
  "userRating track_a = None
   \<and> rate_tracks flaky_client five_stars_3 [track_a] no_effects =
       (\<lparr>rated = 0, updated = 0, skipped = 0\<rparr>,
        \<lparr>logged = [Error_rating ''a'' (ClientError ''refused'')], calls = [(track_a, Some 6)]\<rparr>)
   \<and> logged (sweep_library empty_client five_stars_3 None music no_effects) =
       [Processing ''Music'', No_tracks ''Music'']"
  by (simp add: flaky_client_def empty_client_def five_stars_3_def track_a_def music_def
      no_effects_def rate_tracks_def rate_track_def rate_track_try_def call_rate_def add_log_def
      convert_to_plex_rating_def sweep_library_def sweep_library_try_def)

subsection \<open>Failures stay with their track or library\<close>

lemma rate_track_mono:
  "rate_track cl tg ov idx t c w = (c', w') \<Longrightarrow>
     set (logged w) \<subseteq> set (logged w') \<and> set (calls w) \<subseteq> set (calls w')"
  by (cases "classify (userRating t) tg ov"; cases "rate cl t (Some tg)")
     (auto simp: rate_track_classify issue_def add_log_def)

lemma loop_mono:
  "rate_tracks_loop cl tg ov idx ts c w = (c', w') \<Longrightarrow>
     set (logged w) \<subseteq> set (logged w') \<and> set (calls w) \<subseteq> set (calls w')"
proof (induction ts arbitrary: idx c w)
  case Nil
  then show ?case by simp
next
  case (Cons t ts)
  obtain c1 w1 where s: "rate_track cl tg ov idx t c w = (c1, w1)" by force
  with Cons.prems have r: "rate_tracks_loop cl tg ov (idx + 1) ts c1 w1 = (c', w')" by simp
  from rate_track_mono [OF s] Cons.IH [OF r] show ?case by blast
qed

lemma loop_error_logged:
  "rate_tracks_loop cl tg ov idx ts c w = (c', w') \<Longrightarrow> t \<in> set ts \<Longrightarrow>
   classify (userRating t) tg ov \<noteq> SKIP \<Longrightarrow> rate cl t (Some tg) = Some e \<Longrightarrow>
     Error_rating (title t) e \<in> set (logged w')"
proof (induction ts arbitrary: idx c w)
  case Nil
  then show ?case by simp
next
  case (Cons a ts)
  obtain c1 w1 where s: "rate_track cl tg ov idx a c w = (c1, w1)" by force
  with Cons.prems(1) have r: "rate_tracks_loop cl tg ov (idx + 1) ts c1 w1 = (c', w')" by simp
  show ?case
  proof (cases "t = a")
    case True
    with s Cons.prems(3,4) have "Error_rating (title t) e \<in> set (logged w1)"
      by (cases "classify (userRating a) tg ov") (auto simp: rate_track_classify add_log_def issue_def)
    with loop_mono [OF r] show ?thesis by blast
  next
    case False
    with Cons.prems(2) have "t \<in> set ts" by simp
    from Cons.IH [OF r this Cons.prems(3,4)] show ?thesis .
  qed
qed

lemma loop_call_issued:
  "rate_tracks_loop cl tg ov idx ts c w = (c', w') \<Longrightarrow> t \<in> set ts \<Longrightarrow>
   classify (userRating t) tg ov \<noteq> SKIP \<Longrightarrow> (t, Some tg) \<in> set (calls w')"
  by (drule loop_calls) simp

lemma sweep_library_mono:
  "set (logged w) \<subseteq> set (logged (sweep_library cl cfg limit lib w))
   \<and> set (calls w) \<subseteq> set (calls (sweep_library cl cfg limit lib w))"
proof (cases "searchTracks cl lib limit")
  case (Inl e)
  then show ?thesis by (auto simp: sweep_library_def sweep_library_try_def add_log_def)
next
  case (Inr tracks)
  obtain c' w' where r: "rate_tracks_loop cl (target cfg) (override_rating cfg) 1 tracks
      \<lparr>rated = 0, updated = 0, skipped = 0\<rparr> (add_log (Processing (lib_title lib)) w) = (c', w')"
    by force
  from loop_mono [OF r] Inr r show ?thesis
    by (auto simp: sweep_library_def sweep_library_try_def add_log_def rate_tracks_def target_def)
qed

lemma library_handled_mono:
  "library_handled cl cfg limit lib w \<Longrightarrow> set (logged w) \<subseteq> set (logged w') \<Longrightarrow>
   set (calls w) \<subseteq> set (calls w') \<Longrightarrow> library_handled cl cfg limit lib w'"
  unfolding library_handled_def by (auto split: sum.splits)

lemma sweep_library_handled:
  "library_handled cl cfg limit lib (sweep_library cl cfg limit lib w)"
proof (cases "searchTracks cl lib limit")
  case (Inl e)
  then show ?thesis
    by (simp add: library_handled_def sweep_library_def sweep_library_try_def add_log_def)
next
  case (Inr tracks)
  obtain c' w' where r: "rate_tracks_loop cl (target cfg) (override_rating cfg) 1 tracks
      \<lparr>rated = 0, updated = 0, skipped = 0\<rparr> (add_log (Processing (lib_title lib)) w) = (c', w')"
    by force
  have p: "Processing (lib_title lib) \<in> set (logged w')"
    using loop_mono [OF r] by (auto simp: add_log_def)
  have res: "sweep_library cl cfg limit lib w =
      (if tracks = [] then add_log (No_tracks (lib_title lib)) (add_log (Processing (lib_title lib)) w)
       else add_log (Summary (lib_title lib) (rated c') (updated c') (skipped c')) w')"
    using Inr r by (simp add: sweep_library_def sweep_library_try_def rate_tracks_def target_def)
  show ?thesis
  proof (cases "tracks = []")
    case True
    with Inr res show ?thesis by (simp add: library_handled_def add_log_def)
  next
    case False
    with res have eq: "sweep_library cl cfg limit lib w =
        add_log (Summary (lib_title lib) (rated c') (updated c') (skipped c')) w'" by simp
    show ?thesis
      unfolding eq library_handled_def
      using Inr p loop_call_issued [OF r] loop_error_logged [OF r]
      by (auto simp: add_log_def)
  qed
qed

lemma sweep_libraries_mono:
  "set (logged w) \<subseteq> set (logged (sweep_libraries cl cfg limit libs w))
   \<and> set (calls w) \<subseteq> set (calls (sweep_libraries cl cfg limit libs w))"
proof (induction libs arbitrary: w)
  case Nil
  then show ?case by simp
next
  case (Cons lib libs)
  from sweep_library_mono [of w cl cfg limit lib] Cons [of "sweep_library cl cfg limit lib w"]
  show ?case by (simp; blast)
qed

lemma sweep_libraries_handled:
  "lib \<in> set libs \<Longrightarrow> library_handled cl cfg limit lib (sweep_libraries cl cfg limit libs w)"
proof (induction libs arbitrary: w)
  case Nil
  then show ?case by simp
next
  case (Cons a libs)
  show ?case
  proof (cases "lib = a")
    case True
    have "library_handled cl cfg limit lib (sweep_library cl cfg limit a w)"
      unfolding True by (rule sweep_library_handled)
    then show ?thesis
      using sweep_libraries_mono [of "sweep_library cl cfg limit a w" cl cfg limit libs]
      by (auto intro: library_handled_mono)
  next
    case False
    with Cons.prems have "lib \<in> set libs" by simp
    from Cons.IH [OF this] show ?thesis by simp
  qed
qed

lemma sweep_libraries_append:
  "sweep_libraries cl cfg limit (xs @ ys) w =
     sweep_libraries cl cfg limit ys (sweep_libraries cl cfg limit xs w)"
  by (induction xs arbitrary: w) simp_all

lemma rate_new_tracks_result:
  "rate_new_tracks cl cfg libs limit (g, w) =
     (if batch_lock g
      then (Returned, g, add_log (Msg ''Batch already running, skipping this trigger.'') w)
      else (Returned, g\<lparr>batch_lock := False, batch_running := False\<rparr>, sweep_libraries cl cfg limit libs w))"
  by (simp add: rate_new_tracks_def rate_new_tracks_frame_def acquire_nonblocking_def release_def)

lemma load_loop_libs:
  "fst (load_music_libs_loop cl names libs w) = libs @ resolved cl names"
  by (induction names arbitrary: libs w)
     (auto simp: resolved_def get_music_lib_def split: sum.splits)

lemma load_loop_mono:
  "set (logged w) \<subseteq> set (logged (snd (load_music_libs_loop cl names libs w)))"
proof (induction names arbitrary: libs w)
  case Nil
  then show ?case by simp
next
  case (Cons n names)
  show ?case
  proof (cases "library_section cl n")
    case (Inl e)
    with Cons [of "add_log (Library_unavailable n) (add_log (Library_fetch_error n e) w)" libs]
    show ?thesis by (auto simp: get_music_lib_def add_log_def)
  next
    case (Inr lib)
    with Cons [of w "libs @ [lib]"] show ?thesis by (simp add: get_music_lib_def)
  qed
qed

lemma load_loop_logged:
  "name \<in> set names \<Longrightarrow> library_section cl name = Inl e \<Longrightarrow>
     Library_fetch_error name e \<in> set (logged (snd (load_music_libs_loop cl names libs w)))
   \<and> Library_unavailable name \<in> set (logged (snd (load_music_libs_loop cl names libs w)))"
proof (induction names arbitrary: libs w)
  case Nil
  then show ?case by simp
next
  case (Cons n names)
  show ?case
  proof (cases "name = n")
    case True
    let ?w = "add_log (Library_unavailable n) (add_log (Library_fetch_error n e) w)"
    have "set (logged ?w) \<subseteq> set (logged (snd (load_music_libs_loop cl names libs ?w)))"
      by (rule load_loop_mono)
    with True Cons.prems(2) show ?thesis
      by (auto simp: get_music_lib_def add_log_def)
  next
    case False
    with Cons.prems have "name \<in> set names" by simp
    from Cons.IH [OF this Cons.prems(2)] show ?thesis
      by (cases "library_section cl n") (simp_all add: get_music_lib_def)
  qed
qed

text \<open>
  C8. A sweep never raises. With the gate free, every library of the list is handled
  whatever happens to the others: its processing line is logged; when its fetch raises
  the fetch error is logged; when the fetch returns, every track that needs a rating has
  its rate call issued, and an error line when that call raises. The sweep of a list is
  the sweep of its first part followed by the sweep of the rest, so no library stops
  the ones after it. Resolving the names keeps the libraries that resolve, in order,
  and logs the others.
\<close>

theorem sweep_error_isolation:
  "fst (rate_new_tracks cl cfg libs limit (g, w)) = Returned
   \<and> (\<not> batch_lock g \<longrightarrow>
        (\<forall>lib \<in> set libs.
           library_handled cl cfg limit lib (snd (snd (rate_new_tracks cl cfg libs limit (g, w))))))
   \<and> sweep_libraries cl cfg limit (xs @ ys) w =
       sweep_libraries cl cfg limit ys (sweep_libraries cl cfg limit xs w)
   \<and> fst (load_music_libs cl names w) = resolved cl names
   \<and> (\<forall>name \<in> set names. \<forall>e. library_section cl name = Inl e \<longrightarrow>
        Library_fetch_error name e \<in> set (logged (snd (load_music_libs cl names w)))
        \<and> Library_unavailable name \<in> set (logged (snd (load_music_libs cl names w))))"
  using load_loop_libs [of cl names "[]" w] load_loop_logged [of _ names cl _ "[]" w]
  by (simp add: rate_new_tracks_result sweep_libraries_handled sweep_libraries_append
      load_music_libs_def)

theorem sweep_error_isolation_witness:
  "\<not> batch_lock free_gate \<and> music \<in> set [jazz, music] \<and> ''Jazz'' \<in> set [''Jazz'', ''Music'']
   \<and> library_section flaky_client ''Jazz'' = Inl (ClientError ''not found'')
   \<and> library_handled flaky_client five_stars_3 None music
       (snd (snd (rate_new_tracks flaky_client five_stars_3 [jazz, music] None (free_gate, no_effects))))
   \<and> rate_new_tracks flaky_client five_stars_3 [jazz, music] None (free_gate, no_effects) =
       (Returned, free_gate,
        \<lparr>logged = [Processing ''Jazz'', Fetch_error ''Jazz'' (ClientError ''timeout''),
                   Processing ''Music'', Error_rating ''a'' (ClientError ''refused''),
                   Updated 3 ''c'', Summary ''Music'' 0 1 1],
         calls = [(track_a, Some 6), (track_c, Some 6)]\<rparr>)
   \<and> load_music_libs flaky_client [''Jazz'', ''Music''] no_effects =
       ([music],
        \<lparr>logged = [Library_fetch_error ''Jazz'' (ClientError ''not found''),
                   Library_unavailable ''Jazz''],
         calls = []\<rparr>)"
proof -
  have h: "\<not> batch_lock free_gate"
    by (simp add: free_gate_def)
  have m: "music \<in> set [jazz, music]" and j: "''Jazz'' \<in> set [''Jazz'', ''Music'']"
    by simp_all
  have s: "library_section flaky_client ''Jazz'' = Inl (ClientError ''not found'')"
    by (simp add: flaky_client_def)
  have c: "rate_new_tracks flaky_client five_stars_3 [jazz, music] None (free_gate, no_effects) =
       (Returned, free_gate,
        \<lparr>logged = [Processing ''Jazz'', Fetch_error ''Jazz'' (ClientError ''timeout''),
                   Processing ''Music'', Error_rating ''a'' (ClientError ''refused''),
                   Updated 3 ''c'', Summary ''Music'' 0 1 1],
         calls = [(track_a, Some 6), (track_c, Some 6)]\<rparr>)"
    by (simp add: rate_new_tracks_result flaky_client_def five_stars_3_def track_a_def track_b_def
        track_c_def music_def jazz_def free_gate_def no_effects_def rate_tracks_def rate_track_def
        rate_track_try_def call_rate_def add_log_def convert_to_plex_rating_def sweep_library_def
        sweep_library_try_def)
  have l: "load_music_libs flaky_client [''Jazz'', ''Music''] no_effects =
       ([music],
        \<lparr>logged = [Library_fetch_error ''Jazz'' (ClientError ''not found''),
                   Library_unavailable ''Jazz''],
         calls = []\<rparr>)"
    by (simp add: flaky_client_def music_def no_effects_def add_log_def load_music_libs_def
        get_music_lib_def)
  have "library_handled flaky_client five_stars_3 None music
       (snd (snd (rate_new_tracks flaky_client five_stars_3 [jazz, music] None (free_gate, no_effects))))"
    using sweep_error_isolation [of flaky_client five_stars_3 "[jazz, music]" None free_gate
        no_effects "[jazz]" "[music]" "[''Jazz'', ''Music'']"] h m
    by blast
  with h m j s c l show ?thesis by blast
qed

subsection \<open>The gate\<close>

lemma filter_update_count:
  "i < length xs \<Longrightarrow>
     length (filter P (xs[i := y])) + (if P (xs ! i) then 1 else 0) =
     length (filter P xs) + (if P y then 1 else 0)"
proof (induction xs arbitrary: i)
  case Nil
  then show ?case by simp
next
  case (Cons x xs)
  then show ?case by (cases i) auto
qed

lemma step_inv:
  assumes "gate_inv s" and "rate_new_tracks_step body a s = Some s'"
  shows "gate_inv s'"
proof (cases a)
  case (Acquire i)
  with assms(2) have i: "i < length (threads s)" "threads s ! i = Start"
    by (auto simp: rate_new_tracks_step_def split: if_splits)
  from filter_update_count [OF i(1), of "\<lambda>p. p = In_sweep" In_sweep] i(2)
  have u1: "length (filter (\<lambda>p. p = In_sweep) ((threads s)[i := In_sweep])) = holders s + 1"
    by (simp add: holders_def)
  from filter_update_count [OF i(1), of "\<lambda>p. p = In_sweep" Done] i(2)
  have u2: "length (filter (\<lambda>p. p = In_sweep) ((threads s)[i := Done])) = holders s"
    by (simp add: holders_def)
  from assms Acquire i u1 u2 show ?thesis
    by (auto simp: rate_new_tracks_step_def gate_inv_def holders_def acquire_nonblocking_def
        split: if_splits)
next
  case (Finish i)
  with assms(2) have i: "i < length (threads s)" "threads s ! i = In_sweep"
    by (auto simp: rate_new_tracks_step_def split: if_splits)
  from filter_update_count [OF i(1), of "\<lambda>p. p = In_sweep" Done] i(2)
  have u: "length (filter (\<lambda>p. p = In_sweep) ((threads s)[i := Done])) + 1 = holders s"
    by (simp add: holders_def)
  from i have "holders s \<noteq> 0"
    by (auto simp: holders_def filter_empty_conv dest: nth_mem)
  with assms(1) have l: "batch_lock (gate_of s)" "holders s = 1"
    by (auto simp: gate_inv_def split: if_splits)
  from assms(2) Finish i u l show ?thesis
    by (auto simp: rate_new_tracks_step_def gate_inv_def holders_def release_def Let_def
        split: prod.splits)
qed

lemma run_inv: "gate_inv s \<Longrightarrow> run body as s = Some s' \<Longrightarrow> gate_inv s'"
proof (induction as arbitrary: s)
  case Nil
  then show ?case by simp
next
  case (Cons a as)
  then show ?case by (auto split: option.splits dest: step_inv)
qed

lemma triggers_inv: "gate_inv (triggers n w)"
  by (simp add: gate_inv_def triggers_def holders_def free_gate_def)

lemma finish_frees:
  assumes "gate_inv s" and "rate_new_tracks_step body (Finish i) s = Some s'"
  shows "\<not> batch_lock (gate_of s')"
proof -
  from assms(2) have i: "i < length (threads s)" "threads s ! i = In_sweep"
    by (auto simp: rate_new_tracks_step_def split: if_splits)
  then have "holders s \<noteq> 0"
    by (auto simp: holders_def filter_empty_conv dest: nth_mem)
  with assms(1) have "batch_lock (gate_of s)"
    by (auto simp: gate_inv_def split: if_splits)
  with assms(2) i show ?thesis
    by (auto simp: rate_new_tracks_step_def release_def Let_def split: prod.splits)
qed

lemma frame_as_steps:
  assumes "threads s ! i = Start" "i < length (threads s)"
  shows "(case rate_new_tracks_step body (Acquire i) s of
            None \<Rightarrow> None
          | Some s1 \<Rightarrow> (if threads s1 ! i = Done then Some s1 else rate_new_tracks_step body (Finish i) s1)) =
         (case rate_new_tracks_frame body (gate_of s, effects s) of
            (r, g, w) \<Rightarrow> Some (s\<lparr>gate_of := g, effects := w, threads := (threads s)[i := Done]\<rparr>))"
  using assms
  by (auto simp: rate_new_tracks_step_def rate_new_tracks_frame_def acquire_nonblocking_def release_def
      Let_def split: prod.splits)

lemma done_stays:
  "i < length (threads s) \<Longrightarrow> threads s ! i = Done \<Longrightarrow>
     rate_new_tracks_step body (Acquire i) s = None \<and> rate_new_tracks_step body (Finish i) s = None"
  by (simp add: rate_new_tracks_step_def)

lemma rejected_step:
  "batch_lock (gate_of s) \<Longrightarrow> rate_new_tracks_step body (Acquire i) s = Some s' \<Longrightarrow>
     threads s' = (threads s)[i := Done] \<and> gate_of s' = gate_of s
     \<and> effects s' = add_log (Msg ''Batch already running, skipping this trigger.'') (effects s)"
  by (auto simp: rate_new_tracks_step_def acquire_nonblocking_def split: if_splits)

lemma free_acquire:
  "\<not> batch_lock (gate_of s) \<Longrightarrow> j < length (threads s) \<Longrightarrow> threads s ! j = Start \<Longrightarrow>
     \<exists>s'. rate_new_tracks_step body (Acquire j) s = Some s' \<and> threads s' ! j = In_sweep
          \<and> batch_lock (gate_of s')"
  by (simp add: rate_new_tracks_step_def acquire_nonblocking_def)

text \<open>
  C1. From any number of triggers started with the lock free, and under every
  interleaving of their steps, at most one thread is inside the guarded sweep, and the
  lock is held exactly when one is. When the holder leaves the sweep, whether its body
  returned or raised, the lock is free and the next acquire succeeds. A trigger whose
  acquire fails logs \<open>Batch already running, skipping this trigger.\<close>, leaves the gate as
  it was and is done: no later step of it exists, so it is dropped, not queued.
  In terms of the function: with the lock held \<open>rate_new_tracks\<close> logs that line and
  returns without running the body; with the lock free it runs the body and releases
  the lock on the way out, also when the body raised.
\<close>

theorem single_flight_gate:
  "(run body as (triggers n w0) = Some s \<longrightarrow>
      holders s \<le> 1 \<and> (batch_lock (gate_of s) \<longleftrightarrow> holders s = 1)
      \<and> (\<forall>i s'. rate_new_tracks_step body (Finish i) s = Some s' \<longrightarrow>
            \<not> batch_lock (gate_of s')
            \<and> (\<forall>j. j < length (threads s') \<and> threads s' ! j = Start \<longrightarrow>
                  (\<exists>s''. rate_new_tracks_step body (Acquire j) s' = Some s'' \<and> threads s'' ! j = In_sweep)))
      \<and> (\<forall>i s'. batch_lock (gate_of s) \<and> rate_new_tracks_step body (Acquire i) s = Some s' \<longrightarrow>
            threads s' = (threads s)[i := Done] \<and> gate_of s' = gate_of s
            \<and> effects s' = add_log (Msg ''Batch already running, skipping this trigger.'') (effects s)
            \<and> rate_new_tracks_step body (Acquire i) s' = None \<and> rate_new_tracks_step body (Finish i) s' = None))
   \<and> (batch_lock g \<longrightarrow>
        rate_new_tracks_frame body (g, w) =
          (Returned, g, add_log (Msg ''Batch already running, skipping this trigger.'') w))
   \<and> (\<not> batch_lock g \<longrightarrow>
        (case rate_new_tracks_frame body (g, w) of
           (r, g', w') \<Rightarrow>
             \<not> batch_lock g' \<and> fst (acquire_nonblocking g')
             \<and> w' = snd (body w)
             \<and> r = (case fst (body w) of None \<Rightarrow> Returned | Some e \<Rightarrow> Raised e)))"
proof (intro conjI impI allI)
  assume r: "run body as (triggers n w0) = Some s"
  from run_inv [OF triggers_inv r] have inv: "gate_inv s" .
  then show "holders s \<le> 1" and "batch_lock (gate_of s) \<longleftrightarrow> holders s = 1"
    by (auto simp: gate_inv_def split: if_splits)
next
  fix i s'
  assume r: "run body as (triggers n w0) = Some s"
    and f: "rate_new_tracks_step body (Finish i) s = Some s'"
  from run_inv [OF triggers_inv r] have inv: "gate_inv s" .
  from finish_frees [OF inv f] show free: "\<not> batch_lock (gate_of s')" .
  fix j
  assume "j < length (threads s') \<and> threads s' ! j = Start"
  with free_acquire [OF free, of j body]
  show "\<exists>s''. rate_new_tracks_step body (Acquire j) s' = Some s'' \<and> threads s'' ! j = In_sweep"
    by blast
next
  fix i s'
  assume h: "batch_lock (gate_of s) \<and> rate_new_tracks_step body (Acquire i) s = Some s'"
  then have i: "i < length (threads s)"
    by (auto simp: rate_new_tracks_step_def split: if_splits)
  from h rejected_step [of s body i s']
  have st: "threads s' = (threads s)[i := Done] \<and> gate_of s' = gate_of s
     \<and> effects s' = add_log (Msg ''Batch already running, skipping this trigger.'') (effects s)"
    by blast
  then show "threads s' = (threads s)[i := Done]" and "gate_of s' = gate_of s"
    and "effects s' = add_log (Msg ''Batch already running, skipping this trigger.'') (effects s)"
    by blast+
  from st i have "i < length (threads s')" "threads s' ! i = Done" by simp_all
  from done_stays [OF this]
  show "rate_new_tracks_step body (Acquire i) s' = None" and "rate_new_tracks_step body (Finish i) s' = None"
    by blast+
next
  assume "batch_lock g"
  then show "rate_new_tracks_frame body (g, w) =
      (Returned, g, add_log (Msg ''Batch already running, skipping this trigger.'') w)"
    by (simp add: rate_new_tracks_frame_def acquire_nonblocking_def)
next
  assume "\<not> batch_lock g"
  then show "case rate_new_tracks_frame body (g, w) of
       (r, g', w') \<Rightarrow>
         \<not> batch_lock g' \<and> fst (acquire_nonblocking g')
         \<and> w' = snd (body w)
         \<and> r = (case fst (body w) of None \<Rightarrow> Returned | Some e \<Rightarrow> Raised e)"
    by (simp add: rate_new_tracks_frame_def acquire_nonblocking_def release_def Let_def
        split: prod.splits)
qed

theorem single_flight_gate_witness:
  "run raising_body [Acquire 0, Acquire 1] (triggers 3 no_effects) =
     Some \<lparr>gate_of = \<lparr>batch_lock = True, batch_running = True\<rparr>,
           effects = \<lparr>logged = [Msg ''Batch already running, skipping this trigger.''], calls = []\<rparr>,
           threads = [In_sweep, Done, Start]\<rparr>
   \<and> holders \<lparr>gate_of = \<lparr>batch_lock = True, batch_running = True\<rparr>,
           effects = \<lparr>logged = [Msg ''Batch already running, skipping this trigger.''], calls = []\<rparr>,
           threads = [In_sweep, Done, Start]\<rparr> = 1
   \<and> run raising_body [Acquire 0, Acquire 1, Finish 0, Acquire 2] (triggers 3 no_effects) =
     Some \<lparr>gate_of = \<lparr>batch_lock = True, batch_running = True\<rparr>,
           effects = \<lparr>logged = [Msg ''Batch already running, skipping this trigger.'',
                                 Processing ''Music''], calls = []\<rparr>,
           threads = [Done, Done, In_sweep]\<rparr>
   \<and> batch_lock \<lparr>batch_lock = True, batch_running = True\<rparr>
   \<and> rate_new_tracks_frame raising_body (\<lparr>batch_lock = True, batch_running = True\<rparr>, no_effects) =
       (Returned, \<lparr>batch_lock = True, batch_running = True\<rparr>,
        \<lparr>logged = [Msg ''Batch already running, skipping this trigger.''], calls = []\<rparr>)
   \<and> \<not> batch_lock free_gate
   \<and> rate_new_tracks_frame raising_body (free_gate, no_effects) =
       (Raised (ClientError ''boom''), free_gate, \<lparr>logged = [Processing ''Music''], calls = []\<rparr>)"
proof -
  let ?s = "\<lparr>gate_of = \<lparr>batch_lock = True, batch_running = True\<rparr>,
           effects = \<lparr>logged = [Msg ''Batch already running, skipping this trigger.''], calls = []\<rparr>,
           threads = [In_sweep, Done, Start]\<rparr>"
  have r1: "run raising_body [Acquire 0, Acquire 1] (triggers 3 no_effects) = Some ?s"
    by (simp add: triggers_def rate_new_tracks_step_def acquire_nonblocking_def free_gate_def
        no_effects_def add_log_def eval_nat_numeral)
  have r2: "run raising_body [Acquire 0, Acquire 1, Finish 0, Acquire 2] (triggers 3 no_effects) =
     Some \<lparr>gate_of = \<lparr>batch_lock = True, batch_running = True\<rparr>,
           effects = \<lparr>logged = [Msg ''Batch already running, skipping this trigger.'',
                                 Processing ''Music''], calls = []\<rparr>,
           threads = [Done, Done, In_sweep]\<rparr>"
    by (simp add: triggers_def rate_new_tracks_step_def acquire_nonblocking_def release_def free_gate_def
        no_effects_def add_log_def raising_body_def eval_nat_numeral)
  have l: "batch_lock \<lparr>batch_lock = True, batch_running = True\<rparr>" by simp
  have f: "\<not> batch_lock free_gate" by (simp add: free_gate_def)
  note t = single_flight_gate [of raising_body "[Acquire 0, Acquire 1]" 3 no_effects ?s]
  from t r1 have h: "holders ?s = 1" by simp
  from single_flight_gate [of raising_body "[]" 0 no_effects "triggers 0 no_effects"
      "\<lparr>batch_lock = True, batch_running = True\<rparr>" no_effects] l
  have f1: "rate_new_tracks_frame raising_body (\<lparr>batch_lock = True, batch_running = True\<rparr>, no_effects) =
       (Returned, \<lparr>batch_lock = True, batch_running = True\<rparr>,
        \<lparr>logged = [Msg ''Batch already running, skipping this trigger.''], calls = []\<rparr>)"
    by (simp add: add_log_def no_effects_def)
  have f2: "rate_new_tracks_frame raising_body (free_gate, no_effects) =
       (Raised (ClientError ''boom''), free_gate, \<lparr>logged = [Processing ''Music''], calls = []\<rparr>)"
    by (simp add: rate_new_tracks_frame_def acquire_nonblocking_def release_def free_gate_def
        no_effects_def add_log_def raising_body_def)
  from r1 h r2 l f1 f f2 show ?thesis by blast
qed

subsection \<open>The event log\<close>

lemma exec_ring:
  assumes "length (rating_log (event_log_of s)) \<le> 500"
  shows "length (rating_log (event_log_of (log_exec a s))) \<le> 500
   \<and> rating_log (event_log_of (log_exec a s)) = last_500 (rating_log (event_log_of s) @ appended [a])"
proof (cases a)
  case (Append ts msg)
  let ?ring = "rating_log (event_log_of s)"
  show ?thesis
  proof (cases "length ?ring = 500")
    case True
    then obtain x xs where c: "?ring = x # xs" by (cases ?ring) auto
    with True Append show ?thesis
      by (simp add: add_log_entry_def Let_def last_500_def)
  next
    case False
    with assms have "length ?ring < 500" by simp
    with Append show ?thesis
      by (simp add: add_log_entry_def Let_def last_500_def)
  qed
next
  case Subscribe
  with assms show ?thesis by (simp add: last_500_def)
next
  case (Pop j)
  with assms show ?thesis by (simp add: last_500_def split: list.splits)
qed

lemma last_500_append:
  "last_500 (last_500 xs @ ys) = last_500 (xs @ ys)"
proof (cases "length xs \<le> 500")
  case True
  then show ?thesis by (simp add: last_500_def)
next
  case False
  then have "length xs + length ys - 500 = (length xs - 500) + length ys" by simp
  with False show ?thesis by (simp add: last_500_def add.commute)
qed

lemma appended_Cons: "appended (a # as) = appended [a] @ appended as"
  by (cases a) simp_all

lemma run_ring:
  "length (rating_log (event_log_of s)) \<le> 500 \<Longrightarrow>
     length (rating_log (event_log_of (log_run as s))) \<le> 500
   \<and> rating_log (event_log_of (log_run as s)) = last_500 (rating_log (event_log_of s) @ appended as)"
proof (induction as arbitrary: s)
  case Nil
  then show ?case by (simp add: last_500_def)
next
  case (Cons a as)
  from exec_ring [OF Cons.prems, of a]
  have e: "length (rating_log (event_log_of (log_exec a s))) \<le> 500"
    and r: "rating_log (event_log_of (log_exec a s)) =
      last_500 (rating_log (event_log_of s) @ appended [a])"
    by blast+
  from Cons.IH [OF e]
  have l: "length (rating_log (event_log_of (log_run as (log_exec a s)))) \<le> 500"
    and q: "rating_log (event_log_of (log_run as (log_exec a s))) =
      last_500 (rating_log (event_log_of (log_exec a s)) @ appended as)"
    by blast+
  have "rating_log (event_log_of (log_run (a # as) s)) =
      last_500 (rating_log (event_log_of s) @ appended (a # as))"
    by (simp add: q r last_500_append appended_Cons [of a as])
  with l show ?case by simp
qed

lemma exec_seen:
  assumes "i < length (listeners (event_log_of s))"
    and "length (delivered s) = length (listeners (event_log_of s))"
  shows "seen (log_exec a s) i = seen s i @ appended [a]
   \<and> length (delivered (log_exec a s)) = length (listeners (event_log_of (log_exec a s)))
   \<and> i < length (listeners (event_log_of (log_exec a s)))"
proof (cases a)
  case (Append ts msg)
  with assms show ?thesis by (simp add: seen_def add_log_entry_def Let_def)
next
  case Subscribe
  with assms show ?thesis by (simp add: seen_def nth_append)
next
  case (Pop j)
  with assms show ?thesis
    by (cases "i = j") (auto simp: seen_def split: list.splits)
qed

lemma run_seen:
  "i < length (listeners (event_log_of s)) \<Longrightarrow> length (delivered s) = length (listeners (event_log_of s)) \<Longrightarrow>
     seen (log_run as s) i = seen s i @ appended as"
proof (induction as arbitrary: s)
  case Nil
  then show ?case by simp
next
  case (Cons a as)
  from exec_seen [OF Cons.prems, of a] Cons.IH [of "log_exec a s"]
  show ?case by (simp add: appended_Cons [of a as])
qed

lemma appended_map_Append:
  "appended (map (\<lambda>n. Append (f n) (g n)) ns) = map (\<lambda>n. log_line (f n) (g n)) ns"
  by (induction ns) simp_all

text \<open>
  C4. An append puts the time before the text, pushes the line onto every registered
  queue and appends it to the ring, which keeps its last 500 lines. After any sequence
  of appends, new streams and stream turns, the ring holds the last 500 of the lines
  it had and the lines appended, oldest first; from an empty ring and 600 appends it
  holds exactly the last 500 appended, in order. What a registered stream has sent and
  still has queued grows by exactly the appended lines, in order; a stream registered
  before the appends gets all of them.
\<close>

theorem event_log_append:
  "listeners (add_log_entry ts msg el) = map (\<lambda>q. q @ [ts @ '' - '' @ msg]) (listeners el)
   \<and> (length (rating_log el) \<le> 500 \<longrightarrow>
        rating_log (add_log_entry ts msg el) = last_500 (rating_log el @ [ts @ '' - '' @ msg]))
   \<and> (length (rating_log (event_log_of s)) \<le> 500 \<longrightarrow>
        rating_log (event_log_of (log_run as s)) =
          last_500 (rating_log (event_log_of s) @ appended as)
        \<and> length (rating_log (event_log_of (log_run as s))) \<le> 500)
   \<and> (rating_log (event_log_of s) = [] \<and> length (appended as) = 600 \<longrightarrow>
        rating_log (event_log_of (log_run as s)) = drop 100 (appended as)
        \<and> length (rating_log (event_log_of (log_run as s))) = 500)
   \<and> (length (delivered s) = length (listeners (event_log_of s)) \<longrightarrow>
        (\<forall>i < length (listeners (event_log_of s)).
           seen (log_run as s) i = seen s i @ appended as)
        \<and> seen (log_run as (log_exec Subscribe s)) (length (listeners (event_log_of s))) = appended as)"
proof (intro conjI impI allI)
  show "listeners (add_log_entry ts msg el) = map (\<lambda>q. q @ [ts @ '' - '' @ msg]) (listeners el)"
    by (simp add: add_log_entry_def log_line_def Let_def)
next
  assume "length (rating_log el) \<le> 500"
  then have "length (rating_log (event_log_of \<lparr>event_log_of = el, delivered = []\<rparr>)) \<le> 500"
    by simp
  from exec_ring [OF this, of "Append ts msg"]
  show "rating_log (add_log_entry ts msg el) = last_500 (rating_log el @ [ts @ '' - '' @ msg])"
    by (simp add: log_line_def)
next
  assume "length (rating_log (event_log_of s)) \<le> 500"
  from run_ring [OF this, of as]
  show "rating_log (event_log_of (log_run as s)) =
          last_500 (rating_log (event_log_of s) @ appended as)"
    and "length (rating_log (event_log_of (log_run as s))) \<le> 500"
    by blast+
next
  assume a: "rating_log (event_log_of s) = [] \<and> length (appended as) = 600"
  then have "length (rating_log (event_log_of s)) \<le> 500" by simp
  from run_ring [OF this, of as] a
  show "rating_log (event_log_of (log_run as s)) = drop 100 (appended as)"
    and "length (rating_log (event_log_of (log_run as s))) = 500"
    by (simp_all add: last_500_def)
next
  fix i
  assume "length (delivered s) = length (listeners (event_log_of s))"
    and "i < length (listeners (event_log_of s))"
  then show "seen (log_run as s) i = seen s i @ appended as"
    by (simp add: run_seen)
next
  assume l: "length (delivered s) = length (listeners (event_log_of s))"
  let ?s = "log_exec Subscribe s" and ?i = "length (listeners (event_log_of s))"
  have "seen (log_run as ?s) ?i = seen ?s ?i @ appended as"
    by (rule run_seen) (simp_all add: l)
  moreover have "seen ?s ?i = []"
    by (simp add: seen_def l nth_append)
  ultimately show "seen (log_run as ?s) ?i = appended as" by simp
qed

theorem event_log_append_witness:
  "log_run [Subscribe, Append ''t1'' ''a'', Pop 0, Append ''t2'' ''b''] empty_log_system =
     \<lparr>event_log_of = \<lparr>rating_log = [''t1 - a'', ''t2 - b''], listeners = [[''t2 - b'']],
                       logging_info = [''a'', ''b'']\<rparr>,
      delivered = [[''t1 - a'']]\<rparr>
   \<and> length (delivered empty_log_system) = length (listeners (event_log_of empty_log_system))
   \<and> seen (log_run [Append ''t1'' ''a'', Pop 0, Append ''t2'' ''b''] (log_exec Subscribe empty_log_system)) 0
       = [''t1 - a'', ''t2 - b'']
   \<and> rating_log (event_log_of empty_log_system) = []
   \<and> length (appended six_hundred) = 600
   \<and> rating_log (event_log_of (log_run six_hundred empty_log_system)) = drop 100 (appended six_hundred)
   \<and> length (rating_log (event_log_of (log_run six_hundred empty_log_system))) = 500"
proof -
  have r: "log_run [Subscribe, Append ''t1'' ''a'', Pop 0, Append ''t2'' ''b''] empty_log_system =
     \<lparr>event_log_of = \<lparr>rating_log = [''t1 - a'', ''t2 - b''], listeners = [[''t2 - b'']],
                       logging_info = [''a'', ''b'']\<rparr>,
      delivered = [[''t1 - a'']]\<rparr>"
    by (simp add: empty_log_system_def add_log_entry_def log_line_def Let_def)
  have d: "length (delivered empty_log_system) = length (listeners (event_log_of empty_log_system))"
    and e: "rating_log (event_log_of empty_log_system) = []"
    by (simp_all add: empty_log_system_def)
  have n: "length (appended six_hundred) = 600"
    by (simp add: six_hundred_def appended_map_Append)
  from event_log_append [of "''t1''" "''a''" "event_log_of empty_log_system" empty_log_system
      "[Append ''t1'' ''a'', Pop 0, Append ''t2'' ''b'']"] d
  have s: "seen (log_run [Append ''t1'' ''a'', Pop 0, Append ''t2'' ''b''] (log_exec Subscribe empty_log_system)) 0
       = [''t1 - a'', ''t2 - b'']"
    by (simp add: empty_log_system_def log_line_def)
  from event_log_append [of "''t1''" "''a''" "event_log_of empty_log_system" empty_log_system
      six_hundred] e n
  have "rating_log (event_log_of (log_run six_hundred empty_log_system)) = drop 100 (appended six_hundred)"
    and "length (rating_log (event_log_of (log_run six_hundred empty_log_system))) = 500"
    by blast+
  with r d s e n show ?thesis by blast
qed

subsection \<open>The webhook\<close>

lemma in_selected_iff: "in_selected v selected \<longleftrightarrow> (\<exists>sec. v = JStr sec \<and> sec \<in> set selected)"
  by (cases v) (auto simp: in_selected_def)

text \<open>
  \<open>sub in s\<close> of the handler finds \<open>sub\<close> somewhere in \<open>s\<close>, and \<open>lower()\<close> sends exactly the two
  cases of a letter to its lower case: the test of the handler is the mention of \<open>new\<close>.
\<close>

lemma take_is_prefix: "take (length sub) s = sub \<longleftrightarrow> (\<exists>post. s = sub @ post)"
proof
  assume "take (length sub) s = sub"
  then have "s = sub @ drop (length sub) s" by (metis append_take_drop_id)
  then show "\<exists>post. s = sub @ post" ..
next
  assume "\<exists>post. s = sub @ post"
  then show "take (length sub) s = sub" by auto
qed

lemma contains_iff: "contains sub s \<longleftrightarrow> (\<exists>pre post. s = pre @ sub @ post)"
proof (induction s)
  case Nil
  then show ?case by auto
next
  case (Cons c s)
  have "(\<exists>pre post. c # s = pre @ sub @ post) \<longleftrightarrow>
      (\<exists>post. c # s = sub @ post) \<or> (\<exists>pre post. s = pre @ sub @ post)"
  proof
    assume "\<exists>pre post. c # s = pre @ sub @ post"
    then obtain pre post where e: "c # s = pre @ sub @ post" by blast
    show "(\<exists>post. c # s = sub @ post) \<or> (\<exists>pre post. s = pre @ sub @ post)"
    proof (cases pre)
      case Nil
      with e show ?thesis by auto
    next
      case (Cons x pre')
      with e have "s = pre' @ sub @ post" by simp
      then show ?thesis by blast
    qed
  next
    assume "(\<exists>post. c # s = sub @ post) \<or> (\<exists>pre post. s = pre @ sub @ post)"
    then show "\<exists>pre post. c # s = pre @ sub @ post"
    proof
      assume "\<exists>post. c # s = sub @ post"
      then obtain post where "c # s = [] @ sub @ post" by auto
      then show ?thesis by blast
    next
      assume "\<exists>pre post. s = pre @ sub @ post"
      then obtain pre post where "c # s = (c # pre) @ sub @ post" by auto
      then show ?thesis by blast
    qed
  qed
  with Cons show ?case by (simp only: contains.simps take_is_prefix)
qed

lemma lower_char_n: "lower_char a = CHR ''n'' \<longleftrightarrow> a = CHR ''n'' \<or> a = CHR ''N''"
  by (auto simp: lower_char_def split: if_splits)

lemma lower_char_e: "lower_char a = CHR ''e'' \<longleftrightarrow> a = CHR ''e'' \<or> a = CHR ''E''"
  by (auto simp: lower_char_def split: if_splits)

lemma lower_char_w: "lower_char a = CHR ''w'' \<longleftrightarrow> a = CHR ''w'' \<or> a = CHR ''W''"
  by (auto simp: lower_char_def split: if_splits)

lemma contains_new_lower: "contains ''new'' (map lower_char ev) \<longleftrightarrow> mentions_new ev"
proof
  assume "contains ''new'' (map lower_char ev)"
  then obtain pre post where "map lower_char ev = pre @ ''new'' @ post"
    unfolding contains_iff by blast
  then obtain pre' r where ev: "ev = pre' @ r" and r: "map lower_char r = ''new'' @ post"
    by (auto simp: map_eq_append_conv)
  from r obtain a b c post' where r': "r = [a, b, c] @ post'" and abc:
    "lower_char a = CHR ''n''" "lower_char b = CHR ''e''" "lower_char c = CHR ''w''"
    by (auto simp: map_eq_Cons_conv)
  from ev r' have "ev = pre' @ [a, b, c] @ post'" by simp
  with abc show "mentions_new ev"
    unfolding mentions_new_def lower_char_n lower_char_e lower_char_w by blast
next
  assume "mentions_new ev"
  then obtain pre a b c post where ev: "ev = pre @ [a, b, c] @ post"
    and l: "lower_char a = CHR ''n''" "lower_char b = CHR ''e''" "lower_char c = CHR ''w''"
    unfolding mentions_new_def lower_char_n lower_char_e lower_char_w by blast
  from ev l have "map lower_char ev = map lower_char pre @ ''new'' @ map lower_char post"
    by simp
  then show "contains ''new'' (map lower_char ev)"
    unfolding contains_iff by blast
qed

lemma field_lookup: "field items key dflt = v \<longleftrightarrow> lookup_or items key dflt v"
  by (auto simp: field_def lookup_or_def split: option.splits)

lemma webhook_try_result:
  "plex_webhook_try loads selected batch_size payload w =
     (if payload = None \<or> payload = Some [] then bad_request w
      else case loads (the payload) of
        Inl e \<Rightarrow> (Inl e, w)
      | Inr data \<Rightarrow>
          (case data of
             JObj items \<Rightarrow>
               (case field items ''Metadata'' (JObj []) of
                  JObj mitems \<Rightarrow>
                    (let event = field items ''event'' (JStr []);
                         section = field mitems ''librarySectionTitle'' (JStr []);
                         w1 = add_log (Webhook event section) w
                     in case event of
                          JStr ev \<Rightarrow>
                            if matches ev section selected then
                              (Inr \<lparr>response_of = \<lparr>resp_body = [], status = 204\<rparr>,
                                    dispatched = Some batch_size\<rparr>, w1)
                            else
                              (Inr \<lparr>response_of = \<lparr>resp_body = ''Ignored'', status = 200\<rparr>,
                                    dispatched = None\<rparr>, w1)
                        | _ \<Rightarrow> (Inl AttributeError, w1))
                | _ \<Rightarrow> (Inl AttributeError, w))
           | _ \<Rightarrow> (Inl AttributeError, w)))"
  by (auto simp: plex_webhook_try_def py_get_def py_lower_def matches_def in_selected_iff Let_def
      contains_new_lower
      split: option.splits sum.splits json.splits)

lemma well_formed_field:
  "well_formed loads payload items ev section \<longleftrightarrow>
     (\<exists>p mitems. payload = Some p \<and> p \<noteq> [] \<and> loads p = Inr (JObj items)
        \<and> field items ''event'' (JStr []) = JStr ev
        \<and> field items ''Metadata'' (JObj []) = JObj mitems
        \<and> field mitems ''librarySectionTitle'' (JStr []) = section)"
  by (simp add: well_formed_def field_lookup)

text \<open>
  C7, as the code has it. The handler starts a sweep (with the batch size as limit)
  exactly when the payload is well formed and matches: it is present, it parses to an
  object, its event is a string that mentions \<open>new\<close> in any case and the section title of
  its metadata is a selected library. It answers 204 exactly when it starts one, 400
  exactly when the payload is missing or empty, 500 exactly when the processing raises,
  which is when the payload is present and not well formed (the parse fails, or the
  document is not an object, its event is not a string or its metadata is not an
  object), and 200 exactly when the payload is well formed and does not match.
\<close>

theorem plex_webhook_responses:
  "(case plex_webhook loads selected batch_size payload w of
      (r, w') \<Rightarrow>
        (dispatched r \<noteq> None \<longleftrightarrow>
           (\<exists>items ev section. well_formed loads payload items ev section
              \<and> matches ev section selected))
      \<and> (dispatched r \<noteq> None \<longrightarrow> dispatched r = Some batch_size)
      \<and> (status (response_of r) = 204 \<longleftrightarrow> dispatched r \<noteq> None)
      \<and> (status (response_of r) = 200 \<longleftrightarrow>
           (\<exists>items ev section. well_formed loads payload items ev section
              \<and> \<not> matches ev section selected))
      \<and> (status (response_of r) = 400 \<longleftrightarrow> payload = None \<or> payload = Some [])
      \<and> (status (response_of r) = 500 \<longleftrightarrow>
           (\<exists>e. fst (plex_webhook_try loads selected batch_size payload
                       (add_log (Msg ''Webhook received - start'') w)) = Inl e))
      \<and> ((\<exists>e. fst (plex_webhook_try loads selected batch_size payload
                       (add_log (Msg ''Webhook received - start'') w)) = Inl e) \<longleftrightarrow>
           payload \<noteq> None \<and> payload \<noteq> Some []
           \<and> \<not> (\<exists>items ev section. well_formed loads payload items ev section))
      \<and> status (response_of r) \<in> {204, 200, 400, 500})"
  unfolding plex_webhook_def webhook_try_result well_formed_field
  by (auto simp: bad_request_def Let_def split: sum.splits json.splits)


theorem plex_webhook_responses_witness:
  "well_formed example_loads (Some ''new in Music'')
     [(''event'', JStr ''library.NEW''), (''Metadata'', JObj [(''librarySectionTitle'', JStr ''Music'')])]
     ''library.NEW'' (JStr ''Music'')
   \<and> matches ''library.NEW'' (JStr ''Music'') [''Music'']
   \<and> dispatched (fst (plex_webhook example_loads [''Music''] (Some 50) (Some ''new in Music'') no_effects))
       \<noteq> None
   \<and> plex_webhook example_loads [''Music''] (Some 50) (Some ''new in Music'') no_effects =
       (\<lparr>response_of = \<lparr>resp_body = [], status = 204\<rparr>, dispatched = Some (Some 50)\<rparr>,
        \<lparr>logged = [Msg ''Webhook received - start'', Webhook (JStr ''library.NEW'') (JStr ''Music'')],
         calls = []\<rparr>)
   \<and> well_formed example_loads (Some ''play in Music'')
     [(''event'', JStr ''media.play''), (''Metadata'', JObj [(''librarySectionTitle'', JStr ''Music'')])]
     ''media.play'' (JStr ''Music'')
   \<and> \<not> matches ''media.play'' (JStr ''Music'') [''Music'']
   \<and> status (response_of (fst (plex_webhook example_loads [''Music''] (Some 50) (Some ''play in Music'')
        no_effects))) = 200
   \<and> plex_webhook example_loads [''Music''] (Some 50) (Some ''play in Music'') no_effects =
       (\<lparr>response_of = \<lparr>resp_body = ''Ignored'', status = 200\<rparr>, dispatched = None\<rparr>,
        \<lparr>logged = [Msg ''Webhook received - start'', Webhook (JStr ''media.play'') (JStr ''Music'')],
         calls = []\<rparr>)
   \<and> plex_webhook example_loads [''Music''] (Some 50) (Some ''new in Films'') no_effects =
       (\<lparr>response_of = \<lparr>resp_body = ''Ignored'', status = 200\<rparr>, dispatched = None\<rparr>,
        \<lparr>logged = [Msg ''Webhook received - start'', Webhook (JStr ''library.new'') (JStr ''Films'')],
         calls = []\<rparr>)
   \<and> plex_webhook example_loads [''Music''] (Some 50) None no_effects =
       (\<lparr>response_of = \<lparr>resp_body = ''Bad Request: Missing payload'', status = 400\<rparr>, dispatched = None\<rparr>,
        \<lparr>logged = [Msg ''Webhook received - start'', Msg ''No payload received in form data''],
         calls = []\<rparr>)
   \<and> plex_webhook example_loads [''Music''] (Some 50) (Some ''a list'') no_effects =
       (\<lparr>response_of = \<lparr>resp_body = ''Error'', status = 500\<rparr>, dispatched = None\<rparr>,
        \<lparr>logged = [Msg ''Webhook received - start'', Webhook_error AttributeError], calls = []\<rparr>)
   \<and> plex_webhook example_loads [''Music''] (Some 50) (Some ''{'') no_effects =
       (\<lparr>response_of = \<lparr>resp_body = ''Error'', status = 500\<rparr>, dispatched = None\<rparr>,
        \<lparr>logged = [Msg ''Webhook received - start'', Webhook_error JSONDecodeError], calls = []\<rparr>)"
proof -
  let ?items = "[(''event'', JStr ''library.NEW''),
      (''Metadata'', JObj [(''librarySectionTitle'', JStr ''Music'')])]"
  let ?play = "[(''event'', JStr ''media.play''),
      (''Metadata'', JObj [(''librarySectionTitle'', JStr ''Music'')])]"
  have wf: "well_formed example_loads (Some ''new in Music'') ?items ''library.NEW'' (JStr ''Music'')"
    by (simp add: well_formed_def lookup_or_def example_loads_def)
  have "''library.NEW'' = ''library.'' @ [CHR ''N'', CHR ''E'', CHR ''W''] @ []"
    by simp
  then have "mentions_new ''library.NEW''"
    unfolding mentions_new_def by blast
  then have m: "matches ''library.NEW'' (JStr ''Music'') [''Music'']"
    by (simp add: matches_def)
  from plex_webhook_responses [where loads = example_loads and selected = "[''Music'']"
      and batch_size = "Some 50" and payload = "Some ''new in Music''" and w = no_effects]
    wf m
  have d: "dispatched (fst (plex_webhook example_loads [''Music''] (Some 50) (Some ''new in Music'') no_effects))
       \<noteq> None"
    by (auto split: prod.splits)
  have wp: "well_formed example_loads (Some ''play in Music'') ?play ''media.play'' (JStr ''Music'')"
    by (simp add: well_formed_def lookup_or_def example_loads_def)
  have "\<not> contains ''new'' (map lower_char ''media.play'')"
    by (simp add: lower_char_def)
  then have "\<not> mentions_new ''media.play''"
    unfolding contains_new_lower .
  then have np: "\<not> matches ''media.play'' (JStr ''Music'') [''Music'']"
    by (simp add: matches_def)
  from plex_webhook_responses [where loads = example_loads and selected = "[''Music'']"
      and batch_size = "Some 50" and payload = "Some ''play in Music''" and w = no_effects]
    wp np
  have i: "status (response_of (fst (plex_webhook example_loads [''Music''] (Some 50) (Some ''play in Music'')
        no_effects))) = 200"
    by (auto split: prod.splits)
  have e: "plex_webhook example_loads [''Music''] (Some 50) (Some ''new in Music'') no_effects =
       (\<lparr>response_of = \<lparr>resp_body = [], status = 204\<rparr>, dispatched = Some (Some 50)\<rparr>,
        \<lparr>logged = [Msg ''Webhook received - start'', Webhook (JStr ''library.NEW'') (JStr ''Music'')],
         calls = []\<rparr>)"
    "plex_webhook example_loads [''Music''] (Some 50) (Some ''play in Music'') no_effects =
       (\<lparr>response_of = \<lparr>resp_body = ''Ignored'', status = 200\<rparr>, dispatched = None\<rparr>,
        \<lparr>logged = [Msg ''Webhook received - start'', Webhook (JStr ''media.play'') (JStr ''Music'')],
         calls = []\<rparr>)"
    "plex_webhook example_loads [''Music''] (Some 50) (Some ''new in Films'') no_effects =
       (\<lparr>response_of = \<lparr>resp_body = ''Ignored'', status = 200\<rparr>, dispatched = None\<rparr>,
        \<lparr>logged = [Msg ''Webhook received - start'', Webhook (JStr ''library.new'') (JStr ''Films'')],
         calls = []\<rparr>)"
    "plex_webhook example_loads [''Music''] (Some 50) None no_effects =
       (\<lparr>response_of = \<lparr>resp_body = ''Bad Request: Missing payload'', status = 400\<rparr>, dispatched = None\<rparr>,
        \<lparr>logged = [Msg ''Webhook received - start'', Msg ''No payload received in form data''],
         calls = []\<rparr>)"
    "plex_webhook example_loads [''Music''] (Some 50) (Some ''a list'') no_effects =
       (\<lparr>response_of = \<lparr>resp_body = ''Error'', status = 500\<rparr>, dispatched = None\<rparr>,
        \<lparr>logged = [Msg ''Webhook received - start'', Webhook_error AttributeError], calls = []\<rparr>)"
    "plex_webhook example_loads [''Music''] (Some 50) (Some ''{'') no_effects =
       (\<lparr>response_of = \<lparr>resp_body = ''Error'', status = 500\<rparr>, dispatched = None\<rparr>,
        \<lparr>logged = [Msg ''Webhook received - start'', Webhook_error JSONDecodeError], calls = []\<rparr>)"
    by (simp_all add: plex_webhook_def plex_webhook_try_def bad_request_def example_loads_def
        py_get_def field_def py_lower_def lower_char_def in_selected_def add_log_def no_effects_def)
  from wf m d wp np i e show ?thesis by blast
qed

text \<open>
  The claim as the specification words it fails: a payload that parses and does not
  match is not always answered with 200. The document \<^verbatim>\<open>{"event": null, "Metadata":
  {"librarySectionTitle": "Music"}}\<close> parses, starts no sweep, and is answered with 500,
  because \<open>None\<close> has no \<open>lower\<close>.
\<close>

theorem webhook_claim_counterexample:
  "example_loads ''null event'' =
     Inr (JObj [(''event'', JNull), (''Metadata'', JObj [(''librarySectionTitle'', JStr ''Music'')])])
   \<and> plex_webhook example_loads [''Music''] (Some 50) (Some ''null event'') no_effects =
       (\<lparr>response_of = \<lparr>resp_body = ''Error'', status = 500\<rparr>, dispatched = None\<rparr>,
        \<lparr>logged = [Msg ''Webhook received - start'', Webhook JNull (JStr ''Music''),
                   Webhook_error AttributeError],
         calls = []\<rparr>)"
  by (simp add: plex_webhook_def plex_webhook_try_def example_loads_def
      py_get_def field_def py_lower_def add_log_def no_effects_def)

subsection \<open>Settings update\<close>

lemma update_libraries_rating [simp]: "rating (update_libraries cl libraries f st) = rating st"
  by (simp add: update_libraries_def log_to_def Let_def split: prod.splits)


lemma style_in_force_libraries [simp]:
  "style_in_force f (update_libraries cl libraries f st) = style_in_force f st"
  by (simp add: style_in_force_def split: option.splits)











text \<open>
  The check of the \<open>1star\<close> style accepts every number in [0, 1], though its own message
  says the value must be 0 or 1.
\<close>

lemma one_star_accepts_a_half:
  "\<not> satisfies_constraint ''1star'' (FNum (1/2))
   \<and> rating_value_try example_builtins (Some ''1star'') (Some ''0.5'') = Inr (PNum (1/2))"
  by (simp add: satisfies_constraint_def rating_value_try_def py_float_def example_builtins_def)

text \<open>
  It accepts \<open>nan\<close> too, of which neither \<open>val_f < 0\<close> nor \<open>val_f > 1\<close> holds: the update stores
  \<open>nan\<close> as the rating value and logs no validation error. A sweep then rates with 0.
\<close>

lemma one_star_accepts_nan:
  "\<not> satisfies_constraint ''1star'' FNan
   \<and> rating_value_try example_builtins (Some ''1star'') (Some ''nan'') = Inr PNan
   \<and> rating (settings_post good_client example_builtins [''Music''] nan_for_one_star prior_state) =
       \<lparr>rating_style = Some ''1star'', rating_value = PNan, override_rating = False\<rparr>
   \<and> logged (effects_of (settings_post good_client example_builtins [''Music''] nan_for_one_star
         prior_state)) =
       [Libraries_changed [''Music''], Interval_set 60,
        Style_value_set (Some ''1star'') PNan, Override_set False]
   \<and> convert_to_plex_rating (Some ''1star'') PNan = 0"
  by (simp add: satisfies_constraint_def settings_post_def update_libraries_def update_style_def
      update_value_def update_override_def update_interval_def batch_interval_try_def
      rating_value_try_def py_int_def py_float_def example_builtins_def nan_for_one_star_def
      prior_state_def good_client_def load_music_libs_def get_music_lib_def log_to_def add_log_def
      no_effects_def convert_to_plex_rating_def Let_def)

subsection \<open>Reset\<close>

text \<open>
  The reset calls \<open>rate(None)\<close> on tracks that have a rating only, and on all of them
  when no call raises.
\<close>

lemma reset_tracks_only_rated:
  "reset_tracks cl ts w = (r, w') \<Longrightarrow>
     \<exists>cs. calls w' = calls w @ map (\<lambda>t. (t, None)) cs
          \<and> set cs \<subseteq> {t \<in> set ts. userRating t \<noteq> None}"
proof (induction ts arbitrary: w)
  case Nil
  then show ?case by simp
next
  case (Cons t ts)
  show ?case
  proof (cases "userRating t")
    case None
    with Cons.prems have "reset_tracks cl ts w = (r, w')" by simp
    from Cons.IH [OF this] show ?thesis by auto
  next
    case (Some c)
    show ?thesis
    proof (cases "rate cl t None")
      case None
      let ?w = "add_log (Cleared (title t)) (w\<lparr>calls := calls w @ [(t, None)]\<rparr>)"
      from Cons.prems Some None have "reset_tracks cl ts ?w = (r, w')"
        by (simp add: call_rate_def)
      from Cons.IH [OF this] obtain cs where
        cs: "calls w' = calls ?w @ map (\<lambda>t. (t, None)) cs"
          "set cs \<subseteq> {t \<in> set ts. userRating t \<noteq> None}" by blast
      have "calls w' = calls w @ map (\<lambda>t. (t, None)) (t # cs)"
        using cs(1) by (simp add: add_log_def)
      moreover have "set (t # cs) \<subseteq> {u \<in> set (t # ts). userRating u \<noteq> None}"
        using cs(2) Some by auto
      ultimately show ?thesis by blast
    next
      case (Some e)
      with Cons.prems \<open>userRating t = Some c\<close>
      have "calls w' = calls w @ map (\<lambda>t. (t, None)) [t]"
        by (auto simp: call_rate_def)
      moreover have "set [t] \<subseteq> {u \<in> set (t # ts). userRating u \<noteq> None}"
        using \<open>userRating t = Some c\<close> by simp
      ultimately show ?thesis by blast
    qed
  qed
qed

lemma reset_tracks_all_when_no_raise:
  "\<forall>t \<in> set ts. rate cl t None = None \<Longrightarrow>
     reset_tracks cl ts w =
       (None, \<lparr>logged = logged w @ map (\<lambda>t. Cleared (title t)) (filter (\<lambda>t. userRating t \<noteq> None) ts),
               calls = calls w @ map (\<lambda>t. (t, None)) (filter (\<lambda>t. userRating t \<noteq> None) ts)\<rparr>)"
proof (induction ts arbitrary: w)
  case Nil
  then show ?case by simp
next
  case (Cons t ts)
  then show ?case
    by (cases "userRating t") (simp_all add: call_rate_def add_log_def)
qed

text \<open>
  C10. The reset should clear exactly the tracks that have a rating. In the code the
  \<open>try\<close> block wraps the whole loop over the tracks of a library, so the first call that
  raises ends the library: with the tracks \<open>a\<close> (unrated), \<open>b\<close> and \<open>c\<close> (both rated) and a server
  that refuses \<open>b\<close>, the track \<open>c\<close> has a rating and gets no call.
\<close>

theorem reset_stops_at_first_failure:
  "userRating track_b \<noteq> None \<and> userRating track_c \<noteq> None
   \<and> reset refusing_client [music] no_effects =
       \<lparr>logged = [Error_in ''Music'' (ClientError ''refused'')], calls = [(track_b, None)]\<rparr>
   \<and> (track_c, None) \<notin> set (calls (reset refusing_client [music] no_effects))"
  by (simp add: reset_library_def call_rate_def add_log_def refusing_client_def no_effects_def
      music_def track_a_def track_b_def track_c_def)

subsection \<open>The scheduler\<close>

lemma alive_is_last:
  assumes "\<forall>p \<in> set (butlast xs). p = L_exit" and "i < length xs" and "xs ! i \<noteq> L_exit"
  shows "xs[i := p] = butlast xs @ [p] \<and> xs ! i = last xs \<and> xs \<noteq> []"
proof -
  from assms(2) have ne: "xs \<noteq> []" by auto
  have "\<not> i < length xs - 1"
  proof
    assume l: "i < length xs - 1"
    then have "butlast xs ! i = xs ! i" by (simp add: nth_butlast)
    moreover from l have "butlast xs ! i \<in> set (butlast xs)" by simp
    ultimately show False using assms(1,3) by auto
  qed
  with assms(2) have i: "i = length xs - 1" by simp
  from ne have x: "xs = butlast xs @ [last xs]" by simp
  have "xs[i := p] = (butlast xs @ [last xs])[i := p]" using x by simp
  also have "\<dots> = butlast xs @ [p]" using i by (simp add: list_update_append)
  finally have "xs[i := p] = butlast xs @ [p]" .
  moreover have "xs ! i = last xs" using i ne by (simp add: last_conv_nth)
  ultimately show ?thesis using ne by simp
qed

lemma slept_between_Cons:
  "slept_between ds \<Longrightarrow> 60 dvd d \<Longrightarrow> \<forall>(t, d') \<in> set ds. t + d \<le> n \<Longrightarrow>
     slept_between ((n, d) # ds)"
  by (cases ds) auto

lemma loop_move:
  assumes inv: "sched_inv s" and alive: "batch_thread_alive s"
    and l: "loops s' = butlast (loops s) @ [p']"
    and same: "callers s' = callers s" "interval s' = interval s" "stop_event s' = stop_event s"
    and t: "timing p' s'"
    and d: "\<forall>(t, d) \<in> set (dispatches s'). t \<le> now s'"
    and w: "slept_between (dispatches s')"
  shows "sched_inv s'"
proof -
  from inv obtain c where c: "callers s = [c]" "caller_inv c s"
    by (auto simp: sched_inv_def)
  from alive have "loops s \<noteq> []" by (simp add: batch_thread_alive_def)
  then have len: "length (loops s') = length (loops s)" by (simp add: l)
  from c(2) alive have "caller_inv c s'"
    by (auto simp: caller_inv_def same len)
  moreover from inv have "\<forall>p \<in> set (butlast (loops s')). p = L_exit"
    by (simp add: sched_inv_def l)
  moreover have "last (loops s') = p'" by (simp add: l)
  ultimately show ?thesis
    using c(1) t d w by (simp add: sched_inv_def same)
qed

lemma periodic_batch_trigger_step_inv:
  assumes inv: "sched_inv s" and st: "periodic_batch_trigger_step i s = Some s'"
  shows "sched_inv s'"
proof -
  from st have i: "i < length (loops s)" and ne: "loops s ! i \<noteq> L_exit"
    by (auto simp: periodic_batch_trigger_step_def split: if_splits)
  from inv have bl: "\<forall>p \<in> set (butlast (loops s)). p = L_exit"
    and dn: "\<forall>(t, d) \<in> set (dispatches s). t \<le> now s"
    and ws: "slept_between (dispatches s)"
    by (simp_all add: sched_inv_def)
  note al = alive_is_last [OF bl i ne]
  from al have up: "\<And>p. (loops s)[i := p] = butlast (loops s) @ [p]"
    using alive_is_last [OF bl i ne] by blast
  from al ne have alive: "batch_thread_alive s"
    by (simp add: batch_thread_alive_def is_alive_def)
  from al inv have tm: "timing (loops s ! i) s"
    by (simp add: sched_inv_def)
  show ?thesis
  proof (cases "loops s ! i")
    case L_begin
    with st i have s': "s' = at_loop i L_head (say (Trigger_thread_started (interval s)) s)"
      by (simp add: periodic_batch_trigger_step_def)
    show ?thesis
      by (rule loop_move [OF inv alive, where p' = L_head])
         (simp_all add: s' at_loop_def say_def up timing_def dn ws)
  next
    case L_head
    show ?thesis
    proof (cases "stop_event s")
      case True
      with L_head st i have s': "s' = at_loop i L_exit s"
        by (simp add: periodic_batch_trigger_step_def)
      show ?thesis
        by (rule loop_move [OF inv alive, where p' = L_exit])
           (simp_all add: s' at_loop_def up timing_def dn ws)
    next
      case False
      with L_head st i have s': "s' = at_loop i L_test s"
        by (simp add: periodic_batch_trigger_step_def)
      show ?thesis
        by (rule loop_move [OF inv alive, where p' = L_test])
           (simp_all add: s' at_loop_def up timing_def dn ws)
    qed
  next
    case L_test
    show ?thesis
    proof (cases "interval s = 0")
      case True
      with L_test st i have s': "s' = at_loop i L_exit
          (say (Msg ''Batch interval is 0 - periodic batch trigger disabled.'') s)"
        by (simp add: periodic_batch_trigger_step_def)
      show ?thesis
        by (rule loop_move [OF inv alive, where p' = L_exit])
           (simp_all add: s' at_loop_def say_def up timing_def dn ws)
    next
      case False
      with L_test st i have s': "s' = at_loop i L_sleep_call s"
        by (simp add: periodic_batch_trigger_step_def)
      show ?thesis
        by (rule loop_move [OF inv alive, where p' = L_sleep_call])
           (simp_all add: s' at_loop_def up timing_def dn ws)
    qed
  next
    case L_sleep_call
    show ?thesis
    proof (cases "interval s < 0")
      case True
      with L_sleep_call st i have s': "s' = at_loop i L_exit s"
        by (simp add: periodic_batch_trigger_step_def)
      show ?thesis
        by (rule loop_move [OF inv alive, where p' = L_exit])
           (simp_all add: s' at_loop_def up timing_def dn ws)
    next
      case False
      let ?d = "nat (interval s * 60)"
      from False L_sleep_call st i have s': "s' = at_loop i (L_sleep ?d (now s + ?d)) s"
        by (simp add: periodic_batch_trigger_step_def)
      from False have "?d = nat (interval s) * 60" by (simp add: nat_mult_distrib)
      then have "60 dvd ?d" by simp
      moreover from dn have "\<forall>(t, d') \<in> set (dispatches s). t + ?d \<le> now s + ?d" by auto
      ultimately have "timing (L_sleep ?d (now s + ?d)) s" by (simp add: timing_def)
      then show ?thesis
        by (intro loop_move [OF inv alive, where p' = "L_sleep ?d (now s + ?d)"])
           (simp_all add: s' at_loop_def up timing_def dn ws)
    qed
  next
    case (L_sleep d wake)
    with st i have wk: "wake \<le> now s" and s': "s' = at_loop i (L_woke d) s"
      by (auto simp: periodic_batch_trigger_step_def split: if_splits)
    from tm L_sleep wk have "timing (L_woke d) s"
      by (fastforce simp: timing_def)
    then show ?thesis
      by (intro loop_move [OF inv alive, where p' = "L_woke d"])
         (simp_all add: s' at_loop_def up timing_def dn ws)
  next
    case (L_woke d)
    show ?thesis
    proof (cases "stop_event s")
      case True
      with L_woke st i have s': "s' = at_loop i L_exit s"
        by (simp add: periodic_batch_trigger_step_def)
      show ?thesis
        by (rule loop_move [OF inv alive, where p' = L_exit])
           (simp_all add: s' at_loop_def up timing_def dn ws)
    next
      case False
      with L_woke st i have s': "s' = at_loop i L_sweep
          ((say (Msg ''Periodic batch trigger started'') s)\<lparr>dispatches := (now s, d) # dispatches s\<rparr>)"
        by (simp add: periodic_batch_trigger_step_def)
      from tm L_woke have t: "60 dvd d" "\<forall>(t, d') \<in> set (dispatches s). t + d \<le> now s"
        by (auto simp: timing_def)
      from slept_between_Cons [OF ws t] have ws': "slept_between ((now s, d) # dispatches s)" .
      show ?thesis
        by (rule loop_move [OF inv alive, where p' = L_sweep])
           (simp_all add: s' at_loop_def say_def up timing_def dn ws')
    qed
  next
    case L_sweep
    with st i have s': "s' = at_loop i L_head (say (Msg ''Periodic batch trigger finished'') s)"
      by (simp add: periodic_batch_trigger_step_def)
    show ?thesis
      by (rule loop_move [OF inv alive, where p' = L_head])
         (simp_all add: s' at_loop_def say_def up timing_def dn ws)
  next
    case L_exit
    with ne show ?thesis by simp
  qed
qed

lemma timing_cong:
  "dispatches s' = dispatches s \<Longrightarrow> now s' = now s \<Longrightarrow> timing p s' = timing p s"
  by (cases p) (simp_all add: timing_def)

lemma caller_move:
  assumes inv: "sched_inv s"
    and same: "loops s' = loops s" "dispatches s' = dispatches s" "now s' = now s"
    and c: "callers s' = [c']" "caller_inv c' s'"
  shows "sched_inv s'"
  using inv c by (simp add: sched_inv_def same timing_cong [of s' s, OF same(2,3)])

lemma at_caller_simps [simp]:
  "loops (at_caller k p s) = loops s"
  "callers (at_caller k p s) = (callers s)[k := p]"
  "dispatches (at_caller k p s) = dispatches s"
  "now (at_caller k p s) = now s"
  "interval (at_caller k p s) = interval s"
  "stop_event (at_caller k p s) = stop_event s"
  "batch_thread_alive (at_caller k p s) = batch_thread_alive s"
  by (simp_all add: at_caller_def batch_thread_alive_def)

lemma say_simps [simp]:
  "loops (say m s) = loops s"
  "callers (say m s) = callers s"
  "dispatches (say m s) = dispatches s"
  "now (say m s) = now s"
  "interval (say m s) = interval s"
  "stop_event (say m s) = stop_event s"
  "batch_thread_alive (say m s) = batch_thread_alive s"
  by (simp_all add: say_def batch_thread_alive_def)

lemma alive_stop_event [simp]:
  "batch_thread_alive (s\<lparr>stop_event := b\<rparr>) = batch_thread_alive s"
  "batch_thread_alive (s\<lparr>interval := n\<rparr>) = batch_thread_alive s"
  by (simp_all add: batch_thread_alive_def)

lemma set_butlast_or_last: "x \<in> set xs \<Longrightarrow> x \<in> set (butlast xs) \<or> x = last xs"
  by (induction xs) auto

lemma start_batch_thread_step_inv:
  assumes inv: "sched_inv s" and st: "start_batch_thread_step k s = Some s'"
  shows "sched_inv s'"
proof -
  from inv obtain c where c: "callers s = [c]" and ci: "caller_inv c s"
    by (auto simp: sched_inv_def)
  from st c have k: "k = 0"
    by (simp add: start_batch_thread_step_def split: if_splits)
  from st have st0: "start_batch_thread_step 0 s = Some s'" by (simp add: k)
  show ?thesis
  proof (cases c)
    case C_idle
    with st0 c show ?thesis by (simp add: start_batch_thread_step_def)
  next
    case C_update
    with st0 c have s': "s' = at_caller 0 C_check s"
      by (simp add: start_batch_thread_step_def)
    show ?thesis
      unfolding s'
      by (rule caller_move [OF inv, where c' = C_check]) (simp_all add: c caller_inv_def)
  next
    case C_check
    with st0 c have s': "s' = at_caller 0 (if batch_thread_alive s then C_set else C_clear) s"
      by (simp add: start_batch_thread_step_def)
    show ?thesis
      unfolding s'
      by (rule caller_move [OF inv, where c' = "if batch_thread_alive s then C_set else C_clear"])
         (simp_all add: c caller_inv_def)
  next
    case C_set
    with st0 c have s': "s' = at_caller 0 C_join_call (s\<lparr>stop_event := True\<rparr>)"
      by (simp add: start_batch_thread_step_def)
    show ?thesis
      unfolding s'
      by (rule caller_move [OF inv, where c' = C_join_call]) (simp_all add: c caller_inv_def)
  next
    case C_join_call
    with ci have se: "stop_event s" by (simp add: caller_inv_def)
    from C_join_call st0 c have s': "s' = at_caller 0 (C_join (length (loops s) - 1)) s"
      by (simp add: start_batch_thread_step_def)
    show ?thesis
      unfolding s'
      by (rule caller_move [OF inv, where c' = "C_join (length (loops s) - 1)"])
         (simp_all add: c caller_inv_def se)
  next
    case (C_join j)
    with ci have j: "j = length (loops s) - 1" by (simp add: caller_inv_def)
    from C_join st0 c have nj: "\<not> (j < length (loops s) \<and> is_alive (loops s ! j))"
      and s': "s' = at_caller 0 C_clear s"
      by (simp_all add: start_batch_thread_step_def split: if_splits)
    have na: "\<not> batch_thread_alive s"
    proof
      assume a: "batch_thread_alive s"
      then have ne: "loops s \<noteq> []" and al: "is_alive (last (loops s))"
        by (simp_all add: batch_thread_alive_def)
      from ne j have "j < length (loops s)" "loops s ! j = last (loops s)"
        by (simp_all add: last_conv_nth)
      with nj al show False by simp
    qed
    show ?thesis
      unfolding s'
      by (rule caller_move [OF inv, where c' = C_clear]) (simp_all add: c caller_inv_def na)
  next
    case C_clear
    with ci have na: "\<not> batch_thread_alive s" by (simp add: caller_inv_def)
    from C_clear st0 c have s': "s' = at_caller 0 C_spawn (s\<lparr>stop_event := False\<rparr>)"
      by (simp add: start_batch_thread_step_def)
    show ?thesis
      unfolding s'
      by (rule caller_move [OF inv, where c' = C_spawn]) (simp_all add: c caller_inv_def na)
  next
    case C_spawn
    with ci have na: "\<not> batch_thread_alive s" by (simp add: caller_inv_def)
    show ?thesis
    proof (cases "0 < interval s")
      case True
      with C_spawn st0 c have s': "s' = at_caller 0 C_idle
          (say (Batch_thread_started (interval s)) (s\<lparr>loops := loops s @ [L_begin]\<rparr>))"
        by (simp add: start_batch_thread_step_def)
      from inv have bl: "\<forall>p \<in> set (butlast (loops s)). p = L_exit"
        and dn: "\<forall>(t, d) \<in> set (dispatches s). t \<le> now s"
        and ws: "slept_between (dispatches s)"
        by (simp_all add: sched_inv_def)
      have all: "\<forall>p \<in> set (loops s). p = L_exit"
      proof
        fix p
        assume p: "p \<in> set (loops s)"
        then have ne: "loops s \<noteq> []" by auto
        from set_butlast_or_last [OF p] bl na ne show "p = L_exit"
          by (auto simp: batch_thread_alive_def is_alive_def)
      qed
      have "caller_inv C_idle s'"
        using True by (simp add: caller_inv_def s')
      moreover have "callers s' = [C_idle]" by (simp add: s' c)
      moreover have "\<forall>p \<in> set (butlast (loops s')). p = L_exit"
        using all by (simp add: s' say_def at_caller_def)
      moreover have "\<forall>(t, d) \<in> set (dispatches s'). t \<le> now s'"
        using dn by (simp add: s' say_def at_caller_def)
      moreover have "timing (last (loops s')) s'"
        by (simp add: s' say_def at_caller_def timing_def)
      moreover have "slept_between (dispatches s')"
        using ws by (simp add: s' say_def at_caller_def)
      ultimately show ?thesis
        unfolding sched_inv_def by blast
    next
      case False
      with C_spawn st0 c have s': "s' = at_caller 0 C_idle
          (say (Msg ''Batch thread NOT started because batch interval is set to 0'') s)"
        by (simp add: start_batch_thread_step_def)
      show ?thesis
        unfolding s'
        by (rule caller_move [OF inv, where c' = C_idle]) (simp_all add: c caller_inv_def na)
    qed
  qed
qed

lemma settings_interval_inv:
  assumes inv: "sched_inv s" and st: "settings_interval k v s = Some s'"
  shows "sched_inv s'"
proof -
  from inv obtain c where c: "callers s = [c]" and ci: "caller_inv c s"
    by (auto simp: sched_inv_def)
  from st c have k: "k = 0"
    by (simp add: settings_interval_def split: if_splits)
  from st have st0: "settings_interval 0 v s = Some s'" by (simp add: k)
  show ?thesis
  proof (cases v)
    case None
    with st0 have s': "s' = at_caller 0 C_update s"
      by (simp add: settings_interval_def split: if_splits)
    show ?thesis
      unfolding s'
      by (rule caller_move [OF inv, where c' = C_update]) (simp_all add: c caller_inv_def)
  next
    case (Some n)
    show ?thesis
    proof (cases "n < 0")
      case True
      with Some st0 have s': "s' = at_caller 0 C_update s"
        by (simp add: settings_interval_def split: if_splits)
      show ?thesis
        unfolding s'
        by (rule caller_move [OF inv, where c' = C_update]) (simp_all add: c caller_inv_def)
    next
      case False
      with Some st0 have s': "s' = at_caller 0 C_update (s\<lparr>interval := n\<rparr>)"
        by (simp add: settings_interval_def split: if_splits)
      show ?thesis
        unfolding s'
        by (rule caller_move [OF inv, where c' = C_update]) (simp_all add: c caller_inv_def)
    qed
  qed
qed

lemma tick_inv:
  assumes inv: "sched_inv s"
  shows "sched_inv (s\<lparr>now := Suc (now s)\<rparr>)"
proof -
  let ?s = "s\<lparr>now := Suc (now s)\<rparr>"
  have t: "timing p s \<Longrightarrow> timing p ?s" for p
  proof (cases p)
    case (L_woke d)
    assume "timing p s"
    with L_woke have "60 dvd d" and "\<forall>(t, d') \<in> set (dispatches s). t + d \<le> now s"
      by (simp_all add: timing_def)
    then have "60 dvd d \<and> (\<forall>(t, d') \<in> set (dispatches ?s). t + d \<le> now ?s)"
      by fastforce
    with L_woke show ?thesis by (simp add: timing_def)
  qed (simp_all add: timing_def)
  from inv obtain c where c: "callers s = [c]" "caller_inv c s"
    by (auto simp: sched_inv_def)
  then have c': "callers ?s = [c]" "caller_inv c ?s"
    by (simp_all add: caller_inv_def batch_thread_alive_def)
  from inv have "\<forall>(t, d) \<in> set (dispatches s). t \<le> now s"
    by (simp add: sched_inv_def)
  then have d: "\<forall>(t, d) \<in> set (dispatches ?s). t \<le> now ?s"
    by fastforce
  from inv have tm: "loops ?s \<noteq> [] \<longrightarrow> timing (last (loops ?s)) ?s"
    using t by (simp add: sched_inv_def)
  from inv have "\<forall>p \<in> set (butlast (loops ?s)). p = L_exit" and "slept_between (dispatches ?s)"
    by (simp_all add: sched_inv_def)
  with c' d tm show ?thesis
    unfolding sched_inv_def by blast
qed

lemma sched_step_inv:
  assumes "sched_inv s" and "sched_step a s = Some s'"
  shows "sched_inv s'"
proof (cases a)
  case (Call k v)
  with assms show ?thesis by (auto intro: settings_interval_inv)
next
  case (Caller k)
  with assms show ?thesis by (auto intro: start_batch_thread_step_inv)
next
  case (Loop i)
  with assms show ?thesis by (auto intro: periodic_batch_trigger_step_inv)
next
  case Tick
  with assms(2) have "s' = s\<lparr>now := Suc (now s)\<rparr>" by simp
  with tick_inv [OF assms(1)] show ?thesis by simp
qed

lemma sched_run_inv: "sched_inv s \<Longrightarrow> sched_run as s = Some s' \<Longrightarrow> sched_inv s'"
proof (induction as arbitrary: s)
  case Nil
  then show ?case by simp
next
  case (Cons a as)
  then show ?case by (auto split: option.splits dest: sched_step_inv)
qed

lemma boot_inv: "sched_inv (boot 0 iv)"
  by (simp add: sched_inv_def boot_def caller_inv_def)

lemma inv_active:
  assumes "sched_inv s"
  shows "active_loops s \<le> 1"
    and "\<not> batch_thread_alive s \<Longrightarrow>
      active_loops s = 0 \<and> (\<forall>i. periodic_batch_trigger_step i s = None)"
proof -
  from assms have bl: "\<forall>p \<in> set (butlast (loops s)). p = L_exit"
    by (simp add: sched_inv_def)
  then have fb: "filter is_alive (butlast (loops s)) = []"
    by (auto simp: filter_empty_conv is_alive_def)
  show "active_loops s \<le> 1"
  proof (cases "loops s = []")
    case True
    then show ?thesis by (simp add: active_loops_def)
  next
    case False
    then have "loops s = butlast (loops s) @ [last (loops s)]" by simp
    then have "filter is_alive (loops s) =
        filter is_alive (butlast (loops s)) @ filter is_alive [last (loops s)]"
      by (metis filter_append)
    with fb show ?thesis by (simp add: active_loops_def)
  qed
  assume na: "\<not> batch_thread_alive s"
  have all: "\<forall>p \<in> set (loops s). p = L_exit"
  proof
    fix p
    assume p: "p \<in> set (loops s)"
    then have ne: "loops s \<noteq> []" by auto
    from set_butlast_or_last [OF p] bl na ne show "p = L_exit"
      by (auto simp: batch_thread_alive_def is_alive_def)
  qed
  then have "filter is_alive (loops s) = []"
    by (auto simp: filter_empty_conv is_alive_def)
  moreover have "periodic_batch_trigger_step i s = None" for i
  proof (cases "i < length (loops s)")
    case True
    with all have "loops s ! i = L_exit" by simp
    then show ?thesis by (simp add: periodic_batch_trigger_step_def)
  next
    case False
    then show ?thesis by (simp add: periodic_batch_trigger_step_def)
  qed
  ultimately show "active_loops s = 0 \<and> (\<forall>i. periodic_batch_trigger_step i s = None)"
    by (simp add: active_loops_def)
qed

text \<open>
  C5, for settings updates served one after another. In every state that the scheduler
  reaches, under every interleaving of the handler, the loops and the clock: at most one
  loop is active; when no update is being served and the interval is 0, no loop is
  active and no loop can take a step, so nothing is dispatched; a caller that is about to
  clear the event or to start a thread has no active loop beside it, so the old loop was
  joined first; a caller is at \<open>join\<close> only with the stop requested; and every periodic
  dispatch follows the whole sleep of the loop that makes it, which lies between it and
  the dispatch before it. The length of that sleep is 60 seconds times the interval that
  the loop read when it called \<open>time.sleep\<close>, and may be 0.
\<close>

theorem scheduler_single_loop:
  "sched_run as (boot 0 iv) = Some s \<longrightarrow>
     active_loops s \<le> 1
     \<and> (callers s = [C_idle] \<and> interval s \<le> 0 \<longrightarrow>
          active_loops s = 0 \<and> (\<forall>i. periodic_batch_trigger_step i s = None))
     \<and> (callers s = [C_clear] \<or> callers s = [C_spawn] \<longrightarrow> active_loops s = 0)
     \<and> (callers s = [C_join_call] \<or> (\<exists>j. callers s = [C_join j]) \<longrightarrow> stop_event s)
     \<and> slept_between (dispatches s)"
proof
  assume "sched_run as (boot 0 iv) = Some s"
  from sched_run_inv [OF boot_inv this] have inv: "sched_inv s" .
  then obtain c where c: "callers s = [c]" "caller_inv c s"
    by (auto simp: sched_inv_def)
  note a = inv_active [OF inv]
  from c a(2) have "callers s = [C_idle] \<and> interval s \<le> 0 \<longrightarrow>
      active_loops s = 0 \<and> (\<forall>i. periodic_batch_trigger_step i s = None)"
    by (auto simp: caller_inv_def)
  moreover from c a(2) have "callers s = [C_clear] \<or> callers s = [C_spawn] \<longrightarrow> active_loops s = 0"
    by (auto simp: caller_inv_def)
  moreover from c have "callers s = [C_join_call] \<or> (\<exists>j. callers s = [C_join j]) \<longrightarrow> stop_event s"
    by (auto simp: caller_inv_def)
  moreover from inv have "slept_between (dispatches s)"
    by (simp add: sched_inv_def)
  ultimately show "active_loops s \<le> 1
     \<and> (callers s = [C_idle] \<and> interval s \<le> 0 \<longrightarrow>
          active_loops s = 0 \<and> (\<forall>i. periodic_batch_trigger_step i s = None))
     \<and> (callers s = [C_clear] \<or> callers s = [C_spawn] \<longrightarrow> active_loops s = 0)
     \<and> (callers s = [C_join_call] \<or> (\<exists>j. callers s = [C_join j]) \<longrightarrow> stop_event s)
     \<and> slept_between (dispatches s)"
    using a(1) by blast
qed


theorem scheduler_single_loop_witness:
  "sched_run stop_to_zero (boot 0 1) =
     Some \<lparr>interval = 0, stop_event = False, loops = [L_exit], callers = [C_idle], now = 0,
           dispatches = [],
           sched_log = [Batch_thread_started 1, Trigger_thread_started 0,
                        Msg ''Batch thread NOT started because batch interval is set to 0'']\<rparr>
   \<and> active_loops \<lparr>interval = 0, stop_event = False, loops = [L_exit], callers = [C_idle], now = 0,
           dispatches = [],
           sched_log = [Batch_thread_started 1, Trigger_thread_started 0,
                        Msg ''Batch thread NOT started because batch interval is set to 0'']\<rparr> = 0
   \<and> sched_run (take 7 stop_while_asleep) (boot 0 1) = Some asleep_state
   \<and> active_loops asleep_state = 1
   \<and> sched_run stop_while_asleep (boot 0 1) = Some stop_requested_state
   \<and> callers stop_requested_state = [C_join 0]
   \<and> stop_event stop_requested_state
   \<and> sched_run two_dispatches (boot 0 1) =
     Some \<lparr>interval = 1, stop_event = False, loops = [L_sweep], callers = [C_idle], now = 120,
           dispatches = [(120, 60), (60, 60)],
           sched_log = [Batch_thread_started 1, Trigger_thread_started 1,
                        Msg ''Periodic batch trigger started'', Msg ''Periodic batch trigger finished'',
                        Msg ''Periodic batch trigger started'']\<rparr>
   \<and> slept_between [(120, 60), (60, 60)]"
proof -
  let ?s = "\<lparr>interval = 0, stop_event = False, loops = [L_exit], callers = [C_idle], now = 0,
           dispatches = [],
           sched_log = [Batch_thread_started 1, Trigger_thread_started 0,
                        Msg ''Batch thread NOT started because batch interval is set to 0'']\<rparr>"
  have r: "sched_run stop_to_zero (boot 0 1) = Some ?s"
    by (simp add: stop_to_zero_def boot_def start_batch_thread_step_def settings_interval_def
        periodic_batch_trigger_step_def at_caller_def at_loop_def say_def batch_thread_alive_def
        is_alive_def)
  have q: "sched_run (take 7 stop_while_asleep) (boot 0 1) = Some asleep_state"
    by (simp add: stop_while_asleep_def boot_def asleep_state_def start_batch_thread_step_def
        settings_interval_def periodic_batch_trigger_step_def at_caller_def at_loop_def say_def
        batch_thread_alive_def is_alive_def)
  have p: "sched_run stop_while_asleep (boot 0 1) = Some stop_requested_state"
    by (simp add: stop_while_asleep_def boot_def stop_requested_state_def
        start_batch_thread_step_def settings_interval_def periodic_batch_trigger_step_def
        at_caller_def at_loop_def say_def batch_thread_alive_def is_alive_def)
  have c: "callers stop_requested_state = [C_join 0]"
    by (simp add: stop_requested_state_def)
  from scheduler_single_loop [where as = stop_to_zero and iv = 1 and s = ?s] r
  have a: "active_loops ?s = 0"
    by simp
  have b: "active_loops asleep_state = 1"
    by (simp add: active_loops_def is_alive_def asleep_state_def)
  from scheduler_single_loop [where as = stop_while_asleep and iv = 1 and s = stop_requested_state] p c
  have e: "stop_event stop_requested_state"
    by blast
  let ?u = "\<lparr>interval = 1, stop_event = False, loops = [L_sweep], callers = [C_idle], now = 120,
           dispatches = [(120, 60), (60, 60)],
           sched_log = [Batch_thread_started 1, Trigger_thread_started 1,
                        Msg ''Periodic batch trigger started'', Msg ''Periodic batch trigger finished'',
                        Msg ''Periodic batch trigger started'']\<rparr>"
  have d: "sched_run two_dispatches (boot 0 1) = Some ?u"
    by (simp add: two_dispatches_def boot_def start_batch_thread_step_def settings_interval_def
        periodic_batch_trigger_step_def at_caller_def at_loop_def say_def batch_thread_alive_def
        is_alive_def eval_nat_numeral)
  from scheduler_single_loop [where as = two_dispatches and iv = 1 and s = ?u] d
  have w: "slept_between [(120, 60), (60, 60)]"
    by simp
  from r a q b p c e d w show ?thesis by blast
qed

text \<open>
  The claim as the specification words it fails twice. Two updates that overlap both
  find the old loop alive, both wait for it, and both start a loop: two loops are
  active. And with one update at a time: the loop reads an interval of 1 at its test
  against 0, the handler assigns 0 before it has called \<open>start_batch_thread\<close>, the loop
  reads 0 for its sleep, finds no stop requested and dispatches again in the second of
  its last dispatch.
\<close>

theorem scheduler_claim_counterexample:
  "sched_run overlapping_calls (boot 1 1) =
     Some \<lparr>interval = 2, stop_event = False, loops = [L_exit, L_begin, L_begin],
           callers = [C_idle, C_idle], now = 0, dispatches = [],
           sched_log = [Batch_thread_started 1, Trigger_thread_started 2,
                        Batch_thread_started 2, Batch_thread_started 2]\<rparr>
   \<and> active_loops \<lparr>interval = 2, stop_event = False, loops = [L_exit, L_begin, L_begin],
           callers = [C_idle, C_idle], now = 0, dispatches = [],
           sched_log = [Batch_thread_started 1, Trigger_thread_started 2,
                        Batch_thread_started 2, Batch_thread_started 2]\<rparr> = 2
   \<and> sched_run zero_between_reads (boot 0 1) =
     Some \<lparr>interval = 0, stop_event = False, loops = [L_sweep], callers = [C_update], now = 60,
           dispatches = [(60, 0), (60, 60)],
           sched_log = [Batch_thread_started 1, Trigger_thread_started 1,
                        Msg ''Periodic batch trigger started'', Msg ''Periodic batch trigger finished'',
                        Msg ''Periodic batch trigger started'']\<rparr>"
proof -
  have "sched_run overlapping_calls (boot 1 1) =
     Some \<lparr>interval = 2, stop_event = False, loops = [L_exit, L_begin, L_begin],
           callers = [C_idle, C_idle], now = 0, dispatches = [],
           sched_log = [Batch_thread_started 1, Trigger_thread_started 2,
                        Batch_thread_started 2, Batch_thread_started 2]\<rparr>"
    by (simp add: overlapping_calls_def boot_def start_batch_thread_step_def settings_interval_def
        periodic_batch_trigger_step_def at_caller_def at_loop_def say_def batch_thread_alive_def
        is_alive_def)
  moreover have "active_loops \<lparr>interval = 2, stop_event = False, loops = [L_exit, L_begin, L_begin],
           callers = [C_idle, C_idle], now = 0, dispatches = [],
           sched_log = [Batch_thread_started 1, Trigger_thread_started 2,
                        Batch_thread_started 2, Batch_thread_started 2]\<rparr> = 2"
    by (simp add: active_loops_def is_alive_def)
  moreover have "sched_run zero_between_reads (boot 0 1) =
     Some \<lparr>interval = 0, stop_event = False, loops = [L_sweep], callers = [C_update], now = 60,
           dispatches = [(60, 0), (60, 60)],
           sched_log = [Batch_thread_started 1, Trigger_thread_started 1,
                        Msg ''Periodic batch trigger started'', Msg ''Periodic batch trigger finished'',
                        Msg ''Periodic batch trigger started'']\<rparr>"
    by (simp add: zero_between_reads_def boot_def start_batch_thread_step_def settings_interval_def
        periodic_batch_trigger_step_def at_caller_def at_loop_def say_def batch_thread_alive_def
        is_alive_def eval_nat_numeral)
  ultimately show ?thesis by blast
qed






end
